theory Spec2Isabelle
  imports Main
begin

section \<open>JavaScript values\<close>

text \<open>
  The values that flow through the facade. Numbers are the integer-valued ones (job
  identifiers, lengths, status codes): a JavaScript number holds every integer up to
  \<open>2^53\<close> exactly and prints it in decimal, and the model takes them as integers
  without a bound. A string is the list of its code units, each below 256.
\<close>

datatype jsval =
    JUndefined
  | JNull
  | JBool bool
  | JNum int
  | JStr string
  | JArr "jsval list"
  | JObj "(string \<times> jsval) list"

datatype error = Error string | TypeError string

text \<open>\<open>!v\<close> is \<open>\<not> truthy v\<close>.\<close>

fun truthy :: "jsval \<Rightarrow> bool" where
  "truthy JUndefined = False"
| "truthy JNull = False"
| "truthy (JBool b) = b"
| "truthy (JNum n) = (n \<noteq> 0)"
| "truthy (JStr s) = (s \<noteq> [])"
| "truthy (JArr xs) = True"
| "truthy (JObj fs) = True"

definition digit :: "nat \<Rightarrow> char" where
  "digit d = ''0123456789'' ! d"

function digits :: "nat \<Rightarrow> string" where
  "digits n = (if n < 10 then [digit n] else digits (n div 10) @ [digit (n mod 10)])"
  by pat_completeness auto
termination
  by (relation "measure id") auto

declare digits.simps [simp del]

fun join :: "string \<Rightarrow> string list \<Rightarrow> string" where
  "join sep [] = []"
| "join sep [x] = x"
| "join sep (x # y # ys) = x @ sep @ join sep (y # ys)"

text \<open>
  \<open>String(v)\<close>, the conversion a template literal applies; \<open>v.toString()\<close> is the same
  wherever \<open>v\<close> is neither \<open>null\<close> nor \<open>undefined\<close>. An array joins its elements with
  a comma, \<open>null\<close> and \<open>undefined\<close> elements as the empty string.
\<close>

fun toString :: "jsval \<Rightarrow> string" where
  "toString JUndefined = ''undefined''"
| "toString JNull = ''null''"
| "toString (JBool b) = (if b then ''true'' else ''false'')"
| "toString (JNum n) = (if n < 0 then CHR ''-'' # digits (nat (- n)) else digits (nat n))"
| "toString (JStr s) = s"
| "toString (JArr xs) =
     join '','' (map (\<lambda>x. if x = JUndefined \<or> x = JNull then [] else toString x) xs)"
| "toString (JObj fs) = ''[object Object]''"

section \<open>Promises and the event registry\<close>

datatype promise = Pending | Resolved jsval | Rejected error

text \<open>
  The promises created so far, by handle (the position in the list). Settling a promise
  that is no longer pending does nothing.
\<close>

definition resolve :: "nat \<Rightarrow> jsval \<Rightarrow> promise list \<Rightarrow> promise list" where
  "resolve h v ps = (if h < length ps \<and> ps ! h = Pending then ps[h := Resolved v] else ps)"

definition reject :: "nat \<Rightarrow> error \<Rightarrow> promise list \<Rightarrow> promise list" where
  "reject h e ps = (if h < length ps \<and> ps ! h = Pending then ps[h := Rejected e] else ps)"

text \<open>
  Node's \<open>EventEmitter\<close>, as far as the facade uses it: every listener is registered with
  \<open>once\<close> and is the \<open>resolve\<close> function of a promise, so a listener is the pair of its
  event name and that promise's handle, kept in registration order. \<open>emit(name, ...args)\<close>
  removes the listeners of \<open>name\<close> and calls each with the arguments; \<open>resolve\<close> reads
  the first one, \<open>undefined\<close> when there is none. The event named \<open>error\<close> is special:
  emitted while it has no listener, \<open>emit\<close> throws an error (its text depends on the
  version of Node) and leaves the registry and the promises as they are.
\<close>

type_synonym EventEmitter = "(string \<times> nat) list"

definition once :: "string \<Rightarrow> nat \<Rightarrow> EventEmitter \<Rightarrow> EventEmitter" where
  "once name h ee = ee @ [(name, h)]"

definition first_arg :: "jsval list \<Rightarrow> jsval" where
  "first_arg args = (case args of [] \<Rightarrow> JUndefined | a # _ \<Rightarrow> a)"

definition EventEmitter_emit ::
  "string \<Rightarrow> jsval list \<Rightarrow> promise list \<times> EventEmitter
     \<Rightarrow> error + promise list \<times> EventEmitter" where
  "EventEmitter_emit name args pe =
     (if name = ''error'' \<and> filter (\<lambda>l. fst l = name) (snd pe) = []
      then Inl (Error ''Unhandled error'')
      else Inr (foldl (\<lambda>ps h. resolve h (first_arg args) ps) (fst pe)
                  (map snd (filter (\<lambda>l. fst l = name) (snd pe))),
                filter (\<lambda>l. fst l \<noteq> name) (snd pe)))"

section \<open>The process, the collaborators and an Sdk instance\<close>

text \<open>
  The state snapshot of the redux store: the subscriber reads its \<open>job\<close> field only.
\<close>

record state =
  job :: jsval

text \<open>
  The socket handed to \<open>setupRedux\<close>. \<open>socket.emit(...newArgs)\<close> puts the arguments on
  the socket's channel; \<open>loopback\<close> gives the store snapshots that this instance's
  subscriber is called with while \<open>socket.emit\<close> is still running (none for a network
  socket, the answer for a connection that replies at once). An exception that the
  subscriber throws there passes through the store's dispatch and through \<open>socket.emit\<close>
  to the caller, and the rest of the snapshots is not shown.
\<close>

record socket =
  channel :: nat
  loopback :: "jsval list \<Rightarrow> state list"

datatype AuthenticatorStrategy =
    Bearer string
  | Basic string string
  | Unauthenticated

text \<open>
  The module-level state: the counter \<open>let jobId = 1\<close>, the promises of the process and
  what has been emitted on the sockets (channel and arguments), in order.
\<close>

record process =
  jobId :: int
  promises :: "promise list"
  wire :: "(nat \<times> jsval list) list"

text \<open>
  The fields of an \<open>Sdk\<close>. The credential provider is a function of how often providers
  have been invoked before, so that it can rotate its answer; \<open>Inl\<close> is a rejection.
\<close>

record Sdk =
  baseUrl :: string
  authenticator :: "nat \<Rightarrow> error + AuthenticatorStrategy"
  socket :: "socket option"
  jobEventEmitter :: EventEmitter

definition init_process :: process where
  "init_process = \<lparr>jobId = 1, promises = [], wire = []\<rparr>"

definition new_Sdk :: "string \<Rightarrow> (nat \<Rightarrow> error + AuthenticatorStrategy) \<Rightarrow> Sdk" where
  "new_Sdk url auth =
     \<lparr>baseUrl = url, authenticator = auth, socket = None, jobEventEmitter = []\<rparr>"

definition default_baseUrl :: string where
  "default_baseUrl = ''/api''"

definition default_authenticator :: "nat \<Rightarrow> error + AuthenticatorStrategy" where
  "default_authenticator = (\<lambda>_. Inr Unauthenticated)"

section \<open>The job correlation engine\<close>

text \<open>
  The callback that \<open>setupRedux\<close> subscribes to the store, called with the store's
  snapshot after every change: a \<open>job\<close> that is falsy and not \<open>0\<close> is ignored, any
  other fires the event named \<open>job.toString()\<close>, with no argument. The result is the
  exception that the callback throws, if any (that of \<open>emit\<close> for the event \<open>error\<close>),
  and the state it leaves.
\<close>

definition storeListener ::
  "'a state_scheme \<Rightarrow> process \<times> Sdk \<Rightarrow> error option \<times> process \<times> Sdk" where
  "storeListener st ps =
     (if \<not> truthy (job st) \<and> job st \<noteq> JNum 0 then (None, ps)
      else
        case EventEmitter_emit (toString (job st)) []
               (promises (fst ps), jobEventEmitter (snd ps)) of
          Inl e \<Rightarrow> (Some e, ps)
        | Inr pe \<Rightarrow>
            (None, (fst ps)\<lparr>promises := fst pe\<rparr>, (snd ps)\<lparr>jobEventEmitter := snd pe\<rparr>))"

definition setupRedux :: "socket \<Rightarrow> Sdk \<Rightarrow> Sdk" where
  "setupRedux sock s = s\<lparr>socket := Some sock\<rparr>"

text \<open>\<open>const jId = jobId++\<close> on the module-level counter.\<close>

definition draw :: "process \<Rightarrow> int \<times> process" where
  "draw p = (jobId p, p\<lparr>jobId := jobId p + 1\<rparr>)"

text \<open>
  The subscriber called with the snapshots that a socket shows while its \<open>emit\<close> runs:
  the first exception ends it.
\<close>

fun shown_in_emit :: "state list \<Rightarrow> process \<times> Sdk \<Rightarrow> error option \<times> process \<times> Sdk" where
  "shown_in_emit [] q = (None, q)"
| "shown_in_emit (st # sts) q =
     (case fst (storeListener st q) of
        Some e \<Rightarrow> (Some e, snd (storeListener st q))
      | None \<Rightarrow> shown_in_emit sts (snd (storeListener st q)))"

text \<open>
  \<open>this.socket.emit(...newArgs)\<close>: the exception it ends with, if any, and the state it
  leaves. Without \<open>setupRedux\<close> the socket is \<open>undefined\<close> and the call throws.
\<close>

definition socket_emit ::
  "jsval list \<Rightarrow> process \<times> Sdk \<Rightarrow> error option \<times> process \<times> Sdk" where
  "socket_emit emitted ps =
     (case socket (snd ps) of
        None \<Rightarrow> (Some (TypeError ''Cannot read property emit of undefined''), ps)
      | Some sock \<Rightarrow>
          shown_in_emit (loopback sock emitted)
            ((fst ps)\<lparr>wire := wire (fst ps) @ [(channel sock, emitted)]\<rparr>, snd ps))"

text \<open>
  The executor of the promise that \<open>emit\<close> returns, run while the promise is created:
  first \<open>this.jobEventEmitter.once(jId.toString(), resolve)\<close>, then the emission; an
  exception thrown in the executor rejects the promise.
\<close>

definition register :: "int \<Rightarrow> nat \<Rightarrow> process \<times> Sdk \<Rightarrow> process \<times> Sdk" where
  "register jId h ps =
     (fst ps, (snd ps)\<lparr>jobEventEmitter := once (toString (JNum jId)) h (jobEventEmitter (snd ps))\<rparr>)"

definition executor :: "int \<Rightarrow> jsval list \<Rightarrow> nat \<Rightarrow> process \<times> Sdk \<Rightarrow> process \<times> Sdk" where
  "executor jId emitted h ps =
     (let ps1 = register jId h ps;
          ps2 = snd (socket_emit emitted ps1)
      in case fst (socket_emit emitted ps1) of
           Some e \<Rightarrow> ((fst ps2)\<lparr>promises := reject h e (promises (fst ps2))\<rparr>, snd ps2)
         | None \<Rightarrow> ps2)"

text \<open>\<open>const opts = {jobId: jId}\<close> and \<open>const newArgs = [action, opts].concat(args)\<close>\<close>

definition newArgs :: "string \<Rightarrow> int \<Rightarrow> jsval list \<Rightarrow> jsval list" where
  "newArgs action jId args = [JStr action, JObj [(''jobId'', JNum jId)]] @ args"

text \<open>\<open>Sdk.emit\<close>: returns the handle of the new promise.\<close>

definition emit :: "string \<Rightarrow> jsval list \<Rightarrow> process \<times> Sdk \<Rightarrow> nat \<times> process \<times> Sdk" where
  "emit action args ps =
     (let (jId, p) = draw (fst ps);
          h = length (promises p)
      in (h, executor jId (newArgs action jId args) h
               (p\<lparr>promises := promises p @ [Pending]\<rparr>, snd ps)))"


section \<open>The HTTP facade\<close>

text \<open>
  \<open>Buffer.from(s)\<close> is the UTF-8 encoding of the string: one byte for a code unit below
  128, two for the others.
\<close>

definition utf8 :: "string \<Rightarrow> nat list" where
  "utf8 s =
     concat (map (\<lambda>c. if of_char c < (128::nat) then [of_char c]
                       else [192 + of_char c div 64, 128 + of_char c mod 64]) s)"

definition b64 :: "nat \<Rightarrow> char" where
  "b64 n = ''ABCDEFGHIJKLMNOPQRSTUVWXYZabcdefghijklmnopqrstuvwxyz0123456789+/'' ! n"

text \<open>\<open>buffer.toString('base64')\<close>: three bytes give four characters, the rest is padded.\<close>

fun base64 :: "nat list \<Rightarrow> string" where
  "base64 [] = []"
| "base64 [a] = [b64 (a div 4), b64 (a mod 4 * 16), CHR ''='', CHR ''='']"
| "base64 [a, b] =
     [b64 (a div 4), b64 (a mod 4 * 16 + b div 16), b64 (b mod 16 * 4), CHR ''='']"
| "base64 (a # b # c # bs) =
     [b64 (a div 4), b64 (a mod 4 * 16 + b div 16), b64 (b mod 16 * 4 + c div 64),
      b64 (c mod 64)] @ base64 bs"

definition unreserved :: "char \<Rightarrow> bool" where
  "unreserved c =
     (c \<in> set (''ABCDEFGHIJKLMNOPQRSTUVWXYZabcdefghijklmnopqrstuvwxyz0123456789-_.!~*()''
               @ [CHR 0x27]))"

definition hexdigit :: "nat \<Rightarrow> char" where
  "hexdigit n = ''0123456789ABCDEF'' ! n"

definition encodeURIComponent :: "string \<Rightarrow> string" where
  "encodeURIComponent s =
     concat (map (\<lambda>c. if unreserved c then [c]
                       else concat (map (\<lambda>b. [CHR ''%'', hexdigit (b div 16), hexdigit (b mod 16)])
                                      (utf8 [c]))) s)"

text \<open>
  \<open>v[name]\<close>: reading a property of \<open>null\<close> or \<open>undefined\<close> throws; an object gives the
  field (its first binding in the list) or \<open>undefined\<close>; an array and a string have
  \<open>length\<close> and their elements under the decimal indices.
\<close>

fun get_prop :: "string \<Rightarrow> jsval \<Rightarrow> error + jsval" where
  "get_prop name JUndefined = Inl (TypeError (''Cannot read property '' @ name @ '' of undefined''))"
| "get_prop name JNull = Inl (TypeError (''Cannot read property '' @ name @ '' of null''))"
| "get_prop name (JObj fs) = Inr (case map_of fs name of None \<Rightarrow> JUndefined | Some v \<Rightarrow> v)"
| "get_prop name (JArr xs) =
     Inr (if name = ''length'' then JNum (int (length xs))
          else case find (\<lambda>i. digits i = name) [0..<length xs] of
                 None \<Rightarrow> JUndefined | Some i \<Rightarrow> xs ! i)"
| "get_prop name (JStr s) =
     Inr (if name = ''length'' then JNum (int (length s))
          else case find (\<lambda>i. digits i = name) [0..<length s] of
                 None \<Rightarrow> JUndefined | Some i \<Rightarrow> JStr [s ! i])"
| "get_prop name (JBool b) = Inr JUndefined"
| "get_prop name (JNum n) = Inr JUndefined"

datatype http_method = GET | POST | PUT | DELETE

text \<open>
  A superagent request: method and URL, the headers set on it and the body given to
  \<open>send\<close>, if any.
\<close>

record request =
  req_method :: http_method
  url :: string
  headers :: "(string \<times> string) list"
  payload :: "jsval option"

definition set_header :: "string \<Rightarrow> string \<Rightarrow> request \<Rightarrow> request" where
  "set_header field val r = r\<lparr>headers := headers r @ [(field, val)]\<rparr>"

text \<open>
  The HTTP transport settles a request that is sent, knowing the requests sent before it:
  \<open>Inr\<close> the response object, \<open>Inl\<close> the error of a failure. The network beside it: how
  often a credential provider has been invoked, and the requests sent, in order.
\<close>

type_synonym transport = "request list \<Rightarrow> request \<Rightarrow> error + jsval"

record net =
  authCalls :: nat
  requests :: "request list"

text \<open>A parameter declared \<open>data = null\<close> is \<open>null\<close> when the argument is \<open>undefined\<close>.\<close>

definition default_null :: "jsval \<Rightarrow> jsval" where
  "default_null d = (if d = JUndefined then JNull else d)"

text \<open>
  \<open>Sdk._req\<close>. The request is built, the provider is awaited, the header is set, and the
  request is sent by \<open>req.then()\<close> or \<open>req.send(data)\<close> when the promise of the async
  function is resolved with it.
\<close>

definition priv_req ::
  "transport \<Rightarrow> Sdk \<Rightarrow> http_method \<Rightarrow> string \<Rightarrow> jsval \<Rightarrow> net \<Rightarrow> (error + jsval) \<times> net" where
  "priv_req http s m path data0 w =
     (let data = default_null data0;
          req = \<lparr>req_method = m, url = baseUrl s @ path, headers = [], payload = None\<rparr>;
          awaited = authenticator s (authCalls w);
          w1 = w\<lparr>authCalls := authCalls w + 1\<rparr>
      in case awaited of
           Inl e \<Rightarrow> (Inl e, w1)
         | Inr authStrategy \<Rightarrow>
             (let req1 =
                    (case authStrategy of
                       Unauthenticated \<Rightarrow> req
                     | Basic username password \<Rightarrow>
                         set_header ''Authorization''
                           (''Basic '' @ base64 (utf8 (username @ '':'' @ password))) req
                     | Bearer token \<Rightarrow>
                         set_header ''Authorization'' (''Bearer '' @ token) req);
                  req2 = (if \<not> truthy data then req1 else req1\<lparr>payload := Some data\<rparr>)
              in (http (requests w1) req2, w1\<lparr>requests := requests w1 @ [req2]\<rparr>)))"

definition postRequest ::
  "transport \<Rightarrow> Sdk \<Rightarrow> string \<Rightarrow> jsval \<Rightarrow> net \<Rightarrow> (error + jsval) \<times> net" where
  "postRequest http s path data = priv_req http s POST path (default_null data)"

definition deleteRequest ::
  "transport \<Rightarrow> Sdk \<Rightarrow> string \<Rightarrow> net \<Rightarrow> (error + jsval) \<times> net" where
  "deleteRequest http s path = priv_req http s DELETE path JUndefined"

definition putRequest ::
  "transport \<Rightarrow> Sdk \<Rightarrow> string \<Rightarrow> jsval \<Rightarrow> net \<Rightarrow> (error + jsval) \<times> net" where
  "putRequest http s path data = priv_req http s PUT path (default_null data)"

definition getRequest ::
  "transport \<Rightarrow> Sdk \<Rightarrow> string \<Rightarrow> net \<Rightarrow> (error + jsval) \<times> net" where
  "getRequest http s path = priv_req http s GET path JUndefined"

section \<open>The user operations located by email\<close>

text \<open>
  The methods of \<open>UserSdk\<close>. Its \<open>getRequest\<close> and \<open>postRequest\<close> are those of the class
  \<open>S\<close>, which hand their arguments to the \<open>Sdk\<close>'s methods of the same names, so the model
  calls these.

  An \<open>await\<close> of a promise that rejects throws, and the async function around it rejects
  with the same error: \<open>await_then\<close> passes an \<open>Inl\<close> on and runs the rest on the value.
\<close>

definition await_then ::
  "(error + jsval) \<times> net \<Rightarrow> (jsval \<Rightarrow> net \<Rightarrow> (error + jsval) \<times> net) \<Rightarrow> (error + jsval) \<times> net" where
  "await_then r k = (case fst r of Inl e \<Rightarrow> (Inl e, snd r) | Inr v \<Rightarrow> k v (snd r))"

text \<open>\<open>{ email: string, locale?: LocaleType }\<close>, the argument of both operations.\<close>

record StartEmailVerificationBody =
  email :: string
  locale' :: "string option"

definition body_object :: "StartEmailVerificationBody \<Rightarrow> jsval" where
  "body_object b =
     JObj ((''email'', JStr (email b)) #
           (case locale' b of None \<Rightarrow> [] | Some l \<Rightarrow> [(''locale'', JStr l)]))"

definition fromEmail :: "transport \<Rightarrow> Sdk \<Rightarrow> string \<Rightarrow> net \<Rightarrow> (error + jsval) \<times> net" where
  "fromEmail http s em w =
     await_then (getRequest http s (''/users?email='' @ encodeURIComponent em) w)
       (\<lambda>res w1.
          case get_prop ''body'' res of
            Inl e \<Rightarrow> (Inl e, w1)
          | Inr body \<Rightarrow>
              if \<not> truthy body then (Inr JNull, w1)
              else if get_prop ''length'' body \<noteq> Inr (JNum 1) then (Inr JNull, w1)
              else (get_prop ''0'' body, w1))"

definition priv_startEmailVerification ::
  "transport \<Rightarrow> Sdk \<Rightarrow> jsval \<Rightarrow> jsval \<Rightarrow> net \<Rightarrow> (error + jsval) \<times> net" where
  "priv_startEmailVerification http s ident body w =
     await_then
       (postRequest http s (''/users/'' @ toString ident @ ''/start-email-verification'') body w)
       (\<lambda>_ w1. (Inr JUndefined, w1))"

definition startPasswordReset ::
  "transport \<Rightarrow> Sdk \<Rightarrow> jsval \<Rightarrow> jsval \<Rightarrow> net \<Rightarrow> (error + jsval) \<times> net" where
  "startPasswordReset http s ident b w =
     await_then
       (postRequest http s (''/users/'' @ toString ident @ ''/start-password-reset'') b w)
       (\<lambda>_ w1. (Inr JUndefined, w1))"

definition startEmailVerification ::
  "transport \<Rightarrow> Sdk \<Rightarrow> StartEmailVerificationBody \<Rightarrow> net \<Rightarrow> (error + jsval) \<times> net" where
  "startEmailVerification http s b w =
     await_then (fromEmail http s (email b) w)
       (\<lambda>user w1.
          if \<not> truthy user then (Inl (Error ''User not found''), w1)
          else case get_prop ''id'' user of
                 Inl e \<Rightarrow> (Inl e, w1)
               | Inr ident \<Rightarrow> priv_startEmailVerification http s ident (body_object b) w1)"

definition forgotPassword ::
  "transport \<Rightarrow> Sdk \<Rightarrow> StartEmailVerificationBody \<Rightarrow> net \<Rightarrow> (error + jsval) \<times> net" where
  "forgotPassword http s p w =
     await_then (fromEmail http s (email p) w)
       (\<lambda>user w1.
          if \<not> truthy user then (Inl (Error ''User not found''), w1)
          else case get_prop ''id'' user of
                 Inl e \<Rightarrow> (Inl e, w1)
               | Inr ident \<Rightarrow>
                   startPasswordReset http s ident
                     (case locale' p of
                        None \<Rightarrow> JObj []
                      | Some l \<Rightarrow> if l \<noteq> [] then JObj [(''locale'', JStr l)] else JObj [])
                     w1)"

section \<open>The resource wrappers\<close>

text \<open>
  \<open>ResourceSdk.get\<close> and \<open>ResourceSdk.del\<close> for a resource path: the first returns the
  \<open>body\<close> of the response, the second returns nothing.
\<close>

definition ResourceSdk_get ::
  "transport \<Rightarrow> Sdk \<Rightarrow> string \<Rightarrow> string \<Rightarrow> net \<Rightarrow> (error + jsval) \<times> net" where
  "ResourceSdk_get http s resourcePath ident w =
     await_then (getRequest http s (''/'' @ resourcePath @ ''/'' @ ident) w)
       (\<lambda>res w1. (get_prop ''body'' res, w1))"

definition ResourceSdk_del ::
  "transport \<Rightarrow> Sdk \<Rightarrow> string \<Rightarrow> string \<Rightarrow> net \<Rightarrow> (error + jsval) \<times> net" where
  "ResourceSdk_del http s resourcePath ident w =
     await_then (deleteRequest http s (''/'' @ resourcePath @ ''/'' @ ident) w)
       (\<lambda>_ w1. (Inr JUndefined, w1))"

section \<open>Runs\<close>

text \<open>
  Several calls of \<open>emit\<close> on one instance, one after the other and none awaited: the
  handles of the promises they return, in order.
\<close>

definition emits ::
  "(string \<times> jsval list) list \<Rightarrow> process \<times> Sdk \<Rightarrow> nat list \<times> process \<times> Sdk" where
  "emits calls q =
     foldl (\<lambda>acc c. (fst acc @ [fst (emit (fst c) (snd c) (snd acc))],
                      snd (emit (fst c) (snd c) (snd acc))))
       ([], q) calls"

text \<open>
  The subscriber called with one snapshot after the other, each a change of the store of
  its own: the state left (an exception of the subscriber goes to whoever changed the
  store).
\<close>

definition observe :: "'a state_scheme list \<Rightarrow> process \<times> Sdk \<Rightarrow> process \<times> Sdk" where
  "observe sts q = foldl (\<lambda>q st. snd (storeListener st q)) q sts"

text \<open>The snapshots that pass the subscriber's guard.\<close>

definition fires :: "'a state_scheme \<Rightarrow> bool" where
  "fires st = (truthy (job st) \<or> job st = JNum 0)"

text \<open>
  A process with any number of \<open>Sdk\<close> instances, all on the one module-level counter.
  An action constructs an instance, sets one up, calls \<open>emit\<close> on one, or is a change of
  the store that an instance has subscribed to (it subscribes in \<open>setupRedux\<close>). An
  action on an instance that does not exist does nothing.
\<close>

datatype action =
    Construct string "nat \<Rightarrow> error + AuthenticatorStrategy"
  | SetupRedux nat socket
  | Emit nat string "jsval list"
  | StoreChanged nat state

fun step :: "action \<Rightarrow> process \<times> Sdk list \<Rightarrow> process \<times> Sdk list" where
  "step (Construct u auth) (p, ss) = (p, ss @ [new_Sdk u auth])"
| "step (SetupRedux i sock) (p, ss) =
     (if i < length ss then (p, ss[i := setupRedux sock (ss ! i)]) else (p, ss))"
| "step (Emit i a args) (p, ss) =
     (if i < length ss
      then (fst (snd (emit a args (p, ss ! i))), ss[i := snd (snd (emit a args (p, ss ! i)))])
      else (p, ss))"
| "step (StoreChanged i st) (p, ss) =
     (if i < length ss \<and> socket (ss ! i) \<noteq> None
      then (fst (snd (storeListener st (p, ss ! i))),
            ss[i := snd (snd (storeListener st (p, ss ! i)))])
      else (p, ss))"

definition run :: "action list \<Rightarrow> process \<times> Sdk list" where
  "run acts = foldl (\<lambda>st a. step a st) (init_process, []) acts"

text \<open>The identifiers that the calls of \<open>emit\<close> in a run draw, in order.\<close>

fun drawn :: "action list \<Rightarrow> process \<times> Sdk list \<Rightarrow> int list" where
  "drawn [] st = []"
| "drawn (Emit i a args # acts) st =
     (if i < length (snd st) then [fst (draw (fst st))] else [])
       @ drawn acts (step (Emit i a args) st)"
| "drawn (a # acts) st = drawn acts (step a st)"

text \<open>The \<open>opts\<close> argument of an emitted message.\<close>

definition opts_of :: "jsval list \<Rightarrow> jsval" where
  "opts_of emitted = (case emitted of _ # opts # _ \<Rightarrow> opts | _ \<Rightarrow> JUndefined)"

section \<open>Invariants of a run\<close>

text \<open>
  In every instance the registered names are distinct, each is the name of an identifier
  already drawn, and each listener is the \<open>resolve\<close> of an existing promise; the messages
  on the sockets carry distinct identifiers, all already drawn.
\<close>

definition registry_inv :: "process \<times> Sdk list \<Rightarrow> bool" where
  "registry_inv st =
     (list_all (\<lambda>s. distinct (map fst (jobEventEmitter s))
                   \<and> list_all (\<lambda>l. (\<exists>k. k < jobId (fst st) \<and> fst l = toString (JNum k))
                                    \<and> snd l < length (promises (fst st)))
                         (jobEventEmitter s)) (snd st)
      \<and> distinct (map (opts_of \<circ> snd) (wire (fst st)))
      \<and> list_all (\<lambda>m. \<exists>k. k < jobId (fst st) \<and> opts_of (snd m) = JObj [(''jobId'', JNum k)])
            (wire (fst st)))"

section \<open>Example collaborators\<close>

definition net0 :: net where
  "net0 = \<lparr>authCalls = 0, requests = []\<rparr>"

text \<open>A provider that rotates its credentials, and one whose token has expired.\<close>

definition rotating :: "nat \<Rightarrow> error + AuthenticatorStrategy" where
  "rotating n =
     (if n = 0 then Inr (Basic ''a'' ''b'')
      else if n = 1 then Inr (Bearer ''xyz'') else Inr Unauthenticated)"

definition expired :: "nat \<Rightarrow> error + AuthenticatorStrategy" where
  "expired n = Inl (Error ''token expired'')"

text \<open>A service that answers every GET with the given body and anything else with 204.\<close>

definition users_server :: "jsval \<Rightarrow> transport" where
  "users_server found sent r =
     (if req_method r = GET then Inr (JObj [(''status'', JNum 200), (''body'', found)])
      else Inr (JObj [(''status'', JNum 204), (''body'', JObj [])]))"

definition anna :: jsval where
  "anna = JObj [(''id'', JStr ''u1'')]"

definition bob :: jsval where
  "bob = JObj [(''id'', JStr ''u2'')]"

text \<open>
  A network socket, on which nothing comes back while \<open>emit\<close> runs, and a connection
  that answers at once: the store already shows the job of the message.
\<close>

definition network :: socket where
  "network = \<lparr>channel = 0, loopback = (\<lambda>_. [])\<rparr>"

definition echo :: socket where
  "echo = \<lparr>channel = 1,
           loopback = (\<lambda>emitted. case get_prop ''jobId'' (opts_of emitted) of
                                    Inl _ \<Rightarrow> [] | Inr j \<Rightarrow> [\<lparr>job = j\<rparr>])\<rparr>"


text \<open>A store snapshot with more than the job in it.\<close>

record snapshot = state +
  users :: jsval

definition connected :: Sdk where
  "connected = setupRedux network (new_Sdk default_baseUrl default_authenticator)"

definition process_at :: "int \<Rightarrow> process" where
  "process_at n = init_process\<lparr>jobId := n\<rparr>"

section \<open>Properties of the job correlation engine\<close>

subsection \<open>Decimal names\<close>

lemma digit_code: "d < 10 \<Longrightarrow> of_char (digit d) = (48::nat) + d"
proof -
  assume "d < 10"
  then have "d = 0 \<or> d = 1 \<or> d = 2 \<or> d = 3 \<or> d = 4 \<or> d = 5 \<or> d = 6 \<or> d = 7 \<or> d = 8 \<or> d = 9"
    by arith
  then show ?thesis
    by (elim disjE) (simp_all add: digit_def)
qed

lemma digit_not_minus: "d < 10 \<Longrightarrow> digit d \<noteq> CHR ''-''"
proof
  assume "d < 10" "digit d = CHR ''-''"
  then have "of_char (digit d) = (45::nat)" by simp
  with digit_code [OF \<open>d < 10\<close>] show False by simp
qed

lemma digits_value:
  "foldl (\<lambda>a c. 10 * a + (of_char c - 48)) (0::nat) (digits n) = n"
proof (induction n rule: digits.induct)
  case (1 n)
  show ?case
  proof (cases "n < 10")
    case True
    then show ?thesis by (simp add: digits.simps [of n] digit_code)
  next
    case False
    then have "digits n = digits (n div 10) @ [digit (n mod 10)]"
      by (simp add: digits.simps [of n])
    then show ?thesis
      using 1 False by (simp add: digit_code)
  qed
qed

lemma digits_inj: "digits a = digits b \<Longrightarrow> a = b"
  by (metis digits_value)

lemma digits_hd: "digits n \<noteq> [] \<and> hd (digits n) \<noteq> CHR ''-''"
proof (induction n rule: digits.induct)
  case (1 n)
  show ?case
  proof (cases "n < 10")
    case True
    then show ?thesis by (simp add: digits.simps [of n] digit_not_minus)
  next
    case False
    then have "digits n = digits (n div 10) @ [digit (n mod 10)]"
      by (simp add: digits.simps [of n])
    then show ?thesis
      using 1 False by simp
  qed
qed

lemma toString_JNum_inj: "toString (JNum a) = toString (JNum b) \<longleftrightarrow> a = b"
proof
  assume eq: "toString (JNum a) = toString (JNum b)"
  have neg: "CHR ''-'' # digits x \<noteq> digits y" for x y
    using digits_hd [of y] by (metis list.sel(1))
  show "a = b"
  proof (cases "a < 0")
    case True
    note a = this
    show ?thesis
    proof (cases "b < 0")
      case True
      with a eq have "digits (nat (- a)) = digits (nat (- b))" by simp
      then have "nat (- a) = nat (- b)" by (rule digits_inj)
      with a True show ?thesis by simp
    next
      case False
      with a eq neg show ?thesis by simp
    qed
  next
    case False
    note a = this
    show ?thesis
    proof (cases "b < 0")
      case True
      with a eq neg [of "nat (- b)" "nat a"] show ?thesis by simp
    next
      case False
      with a eq have "digits (nat a) = digits (nat b)" by simp
      then have "nat a = nat b" by (rule digits_inj)
      with a False show ?thesis by simp
    qed
  qed
qed simp

lemma digits_hd_digit: "\<exists>d<10. hd (digits n) = digit d"
proof (induction n rule: digits.induct)
  case (1 n)
  show ?case
  proof (cases "n < 10")
    case True
    then show ?thesis by (auto simp: digits.simps [of n])
  next
    case False
    then have "digits n = digits (n div 10) @ [digit (n mod 10)]"
      by (simp add: digits.simps [of n])
    then show ?thesis
      using 1 False digits_hd [of "n div 10"] by simp
  qed
qed

lemma toString_JNum_not_error: "toString (JNum j) \<noteq> ''error''"
proof
  assume eq: "toString (JNum j) = ''error''"
  have "hd (digits n) \<noteq> CHR ''e''" for n
  proof
    assume e: "hd (digits n) = CHR ''e''"
    from digits_hd_digit [of n] obtain d where d: "d < 10" "hd (digits n) = digit d" by blast
    with e have "of_char (digit d) = (101::nat)" by simp
    with digit_code [OF d(1)] d(1) show False by simp
  qed
  from this [of "nat j"] eq show False
    by (cases "j < 0") auto
qed

declare toString.simps(4) [simp del]

subsection \<open>Promises and the registry\<close>

lemma length_resolve [simp]: "length (resolve h v ps) = length ps"
  by (simp add: resolve_def)

lemma nth_resolve:
  "resolve h v ps ! k = (if k = h \<and> h < length ps \<and> ps ! h = Pending then Resolved v else ps ! k)"
  by (simp add: resolve_def)

lemma length_foldl_resolve [simp]:
  "length (foldl (\<lambda>ps h. resolve h v ps) ps hs) = length ps"
  by (induction hs arbitrary: ps) simp_all

lemma nth_foldl_resolve:
  "k < length ps \<Longrightarrow>
   foldl (\<lambda>ps h. resolve h v ps) ps hs ! k
     = (if k \<in> set hs \<and> ps ! k = Pending then Resolved v else ps ! k)"
proof (induction hs arbitrary: ps)
  case Nil
  then show ?case by simp
next
  case (Cons h hs)
  then show ?case by (auto simp: nth_resolve)
qed

lemma storeListener_ignored: "\<not> fires st \<Longrightarrow> storeListener st q = (None, q)"
  by (simp add: storeListener_def fires_def)

lemma storeListener_thrown:
  "fst (storeListener st q)
     = (if fires st \<and> toString (job st) = ''error''
           \<and> filter (\<lambda>l. fst l = ''error'') (jobEventEmitter (snd q)) = []
        then Some (Error ''Unhandled error'') else None)"
  by (auto simp: storeListener_def fires_def EventEmitter_emit_def)

lemma filter_none_others: "filter P xs = [] \<Longrightarrow> filter (\<lambda>x. \<not> P x) xs = xs"
  by (induction xs) (auto split: if_splits)

lemma storeListener_fires:
  "fires st \<Longrightarrow>
   snd (storeListener st q) =
     ((fst q)\<lparr>promises :=
         foldl (\<lambda>ps h. resolve h JUndefined ps) (promises (fst q))
           (map snd (filter (\<lambda>l. fst l = toString (job st)) (jobEventEmitter (snd q))))\<rparr>,
      (snd q)\<lparr>jobEventEmitter :=
         filter (\<lambda>l. fst l \<noteq> toString (job st)) (jobEventEmitter (snd q))\<rparr>)"
  by (auto simp: storeListener_def fires_def EventEmitter_emit_def first_arg_def
      filter_none_others)

lemma storeListener_frame [simp]:
  "jobId (fst (snd (storeListener st q))) = jobId (fst q)"
  "wire (fst (snd (storeListener st q))) = wire (fst q)"
  "socket (snd (snd (storeListener st q))) = socket (snd q)"
  "baseUrl (snd (snd (storeListener st q))) = baseUrl (snd q)"
  "length (promises (fst (snd (storeListener st q)))) = length (promises (fst q))"
  by (cases "fires st"; simp add: storeListener_ignored storeListener_fires)+

lemma storeListener_registry:
  "jobEventEmitter (snd (snd (storeListener st q)))
     = (if fires st then filter (\<lambda>l. fst l \<noteq> toString (job st)) (jobEventEmitter (snd q))
        else jobEventEmitter (snd q))"
  by (simp add: storeListener_ignored storeListener_fires)

lemma storeListener_promise:
  "k < length (promises (fst q)) \<Longrightarrow>
   promises (fst (snd (storeListener st q))) ! k
     = (if fires st \<and> (toString (job st), k) \<in> set (jobEventEmitter (snd q))
           \<and> promises (fst q) ! k = Pending
        then Resolved JUndefined else promises (fst q) ! k)"
  by (cases "fires st") (auto simp: storeListener_ignored storeListener_fires nth_foldl_resolve image_iff)

lemma storeListener_idem:
  "snd (storeListener st (snd (storeListener st q))) = snd (storeListener st q)"
proof (cases "fires st")
  case True
  have "filter (\<lambda>l. fst l = toString (job st))
          (filter (\<lambda>l. fst l \<noteq> toString (job st)) ee) = []" for ee :: EventEmitter
    by (induction ee) auto
  then show ?thesis
    by (simp add: storeListener_fires [OF True])
qed (simp add: storeListener_ignored)

lemma observe_Nil [simp]: "observe [] q = q"
  by (simp add: observe_def)

lemma observe_Cons [simp]: "observe (st # sts) q = observe sts (snd (storeListener st q))"
  by (simp add: observe_def)

lemma observe_append [simp]: "observe (xs @ ys) q = observe ys (observe xs q)"
  by (simp add: observe_def)

lemma observe_frame [simp]:
  "jobId (fst (observe sts q)) = jobId (fst q)"
  "wire (fst (observe sts q)) = wire (fst q)"
  "socket (snd (observe sts q)) = socket (snd q)"
  "length (promises (fst (observe sts q))) = length (promises (fst q))"
  by (induction sts arbitrary: q) simp_all

text \<open>A promise is resolved by the snapshots observed exactly when one of them fires a name
  under which its handle is registered.\<close>

lemma observe_promise:
  "h < length (promises (fst q)) \<Longrightarrow> promises (fst q) ! h = Pending \<Longrightarrow>
   promises (fst (observe sts q)) ! h
     = (if \<exists>st \<in> set sts. fires st \<and> (toString (job st), h) \<in> set (jobEventEmitter (snd q))
        then Resolved JUndefined else Pending)"
proof (induction sts arbitrary: q)
  case Nil
  then show ?case by simp
next
  case (Cons st sts)
  let ?q = "snd (storeListener st q)"
  show ?case
  proof (cases "fires st \<and> (toString (job st), h) \<in> set (jobEventEmitter (snd q))")
    case True
    then have r: "promises (fst ?q) ! h = Resolved JUndefined"
      using Cons.prems by (simp add: storeListener_promise)
    have "promises (fst (observe sts ?q)) ! h = Resolved JUndefined"
      using r Cons.prems(1)
    proof (induction sts arbitrary: q st)
      case Nil
      then show ?case by simp
    next
      case (Cons a sts)
      have "promises (fst (snd (storeListener a (snd (storeListener st q))))) ! h
              = Resolved JUndefined"
        using Cons.prems by (simp add: storeListener_promise)
      from Cons.IH [OF this] Cons.prems(2) show ?case by simp
    qed
    with True show ?thesis by auto
  next
    case False
    then have p: "promises (fst ?q) ! h = Pending"
      using Cons.prems by (auto simp: storeListener_promise)
    have reg: "(n, h) \<in> set (jobEventEmitter (snd ?q)) \<longleftrightarrow> (n, h) \<in> set (jobEventEmitter (snd q))"
      if "\<not> (fires st \<and> n = toString (job st))" for n
      using that by (auto simp: storeListener_registry)
    have reg': "(toString (job x), h) \<in> set (jobEventEmitter (snd ?q))
                \<longleftrightarrow> (toString (job x), h) \<in> set (jobEventEmitter (snd q))" for x :: "'a state_scheme"
      using False by (auto simp: storeListener_registry)
    have "promises (fst (observe sts ?q)) ! h
            = (if \<exists>x \<in> set sts. fires x \<and> (toString (job x), h) \<in> set (jobEventEmitter (snd ?q))
               then Resolved JUndefined else Pending)"
      using Cons.IH [of ?q] p Cons.prems(1) by simp
    then show ?thesis
      using False by (auto simp: reg')
  qed
qed

subsection \<open>What one call of emit does\<close>

lemma length_reject [simp]: "length (reject h e ps) = length ps"
  by (simp add: reject_def)


lemma observe_registry_filter:
  "\<exists>P. jobEventEmitter (snd (observe sts q)) = filter P (jobEventEmitter (snd q))"
proof (induction sts arbitrary: q)
  case Nil
  have "jobEventEmitter (snd q) = filter (\<lambda>_. True) (jobEventEmitter (snd q))" by simp
  then show ?case by (simp del: filter_True) blast
next
  case (Cons st sts)
  from Cons [of "snd (storeListener st q)"] obtain P where
    P: "jobEventEmitter (snd (observe sts (snd (storeListener st q))))
          = filter P (jobEventEmitter (snd (snd (storeListener st q))))" by blast
  show ?case
  proof (cases "fires st")
    case True
    then have "jobEventEmitter (snd (observe (st # sts) q))
        = filter (\<lambda>l. P l \<and> fst l \<noteq> toString (job st)) (jobEventEmitter (snd q))"
      using P by (simp add: storeListener_registry conj_commute)
    then show ?thesis by blast
  next
    case False
    then show ?thesis using P by (auto simp: storeListener_ignored)
  qed
qed

text \<open>
  What a socket shows while its \<open>emit\<close> runs is observed up to the first exception, if
  there is one.
\<close>

lemma shown_in_emit_prefix:
  "\<exists>n. snd (shown_in_emit sts q) = observe (take n sts) q"
proof (induction sts arbitrary: q)
  case Nil
  show ?case by simp
next
  case (Cons st sts)
  show ?case
  proof (cases "fst (storeListener st q)")
    case None
    from Cons [of "snd (storeListener st q)"] obtain n where
      "snd (shown_in_emit sts (snd (storeListener st q)))
         = observe (take n sts) (snd (storeListener st q))" by blast
    then have "snd (shown_in_emit (st # sts) q) = observe (take (Suc n) (st # sts)) q"
      by (simp add: None)
    then show ?thesis by blast
  next
    case (Some e)
    have "snd (shown_in_emit (st # sts) q) = observe (take (Suc 0) (st # sts)) q"
      by (simp add: Some)
    then show ?thesis by blast
  qed
qed

lemma shown_in_emit_no_error:
  "list_all (\<lambda>x. toString (job x) \<noteq> ''error'') sts \<Longrightarrow>
   shown_in_emit sts q = (None, observe sts q)"
proof (induction sts arbitrary: q)
  case Nil
  show ?case by simp
next
  case (Cons st sts)
  then have "fst (storeListener st q) = None"
    by (simp add: storeListener_thrown)
  with Cons show ?case by simp
qed

lemma shown_in_emit_frame [simp]:
  "jobId (fst (snd (shown_in_emit sts q))) = jobId (fst q)"
  "wire (fst (snd (shown_in_emit sts q))) = wire (fst q)"
  "socket (snd (snd (shown_in_emit sts q))) = socket (snd q)"
  "length (promises (fst (snd (shown_in_emit sts q)))) = length (promises (fst q))"
proof -
  from shown_in_emit_prefix [of sts q] obtain n where
    n: "snd (shown_in_emit sts q) = observe (take n sts) q" by blast
  show "jobId (fst (snd (shown_in_emit sts q))) = jobId (fst q)"
    "wire (fst (snd (shown_in_emit sts q))) = wire (fst q)"
    "socket (snd (snd (shown_in_emit sts q))) = socket (snd q)"
    "length (promises (fst (snd (shown_in_emit sts q)))) = length (promises (fst q))"
    by (simp_all add: n)
qed

lemma shown_in_emit_registry_filter:
  "\<exists>P. jobEventEmitter (snd (snd (shown_in_emit sts q))) = filter P (jobEventEmitter (snd q))"
proof -
  from shown_in_emit_prefix [of sts q] obtain n where
    n: "snd (shown_in_emit sts q) = observe (take n sts) q" by blast
  show ?thesis
    unfolding n by (rule observe_registry_filter)
qed

lemma emit_unconnected:
  "socket s = None \<Longrightarrow>
   emit a args (p, s) =
     (length (promises p),
      p\<lparr>jobId := jobId p + 1,
        promises := promises p @ [Rejected (TypeError ''Cannot read property emit of undefined'')]\<rparr>,
      s\<lparr>jobEventEmitter := jobEventEmitter s @ [(toString (JNum (jobId p)), length (promises p))]\<rparr>)"
  by (simp add: emit_def draw_def executor_def register_def socket_emit_def once_def reject_def
      Let_def)

text \<open>
  On a connected instance: the state in which the emission starts, and what \<open>emit\<close>
  returns from what the socket shows.
\<close>

lemma emit_connected:
  assumes "socket s = Some sock"
  shows "emit a args (p, s) =
     (length (promises p),
      case fst (shown_in_emit (loopback sock (newArgs a (jobId p) args))
                 (p\<lparr>jobId := jobId p + 1, promises := promises p @ [Pending],
                    wire := wire p @ [(channel sock, newArgs a (jobId p) args)]\<rparr>,
                  s\<lparr>jobEventEmitter :=
                      jobEventEmitter s @ [(toString (JNum (jobId p)), length (promises p))]\<rparr>)) of
        None \<Rightarrow>
          snd (shown_in_emit (loopback sock (newArgs a (jobId p) args))
                 (p\<lparr>jobId := jobId p + 1, promises := promises p @ [Pending],
                    wire := wire p @ [(channel sock, newArgs a (jobId p) args)]\<rparr>,
                  s\<lparr>jobEventEmitter :=
                      jobEventEmitter s @ [(toString (JNum (jobId p)), length (promises p))]\<rparr>))
      | Some e \<Rightarrow>
          ((fst (snd (shown_in_emit (loopback sock (newArgs a (jobId p) args))
                 (p\<lparr>jobId := jobId p + 1, promises := promises p @ [Pending],
                    wire := wire p @ [(channel sock, newArgs a (jobId p) args)]\<rparr>,
                  s\<lparr>jobEventEmitter :=
                      jobEventEmitter s @ [(toString (JNum (jobId p)), length (promises p))]\<rparr>))))
             \<lparr>promises := reject (length (promises p)) e
                (promises (fst (snd (shown_in_emit (loopback sock (newArgs a (jobId p) args))
                 (p\<lparr>jobId := jobId p + 1, promises := promises p @ [Pending],
                    wire := wire p @ [(channel sock, newArgs a (jobId p) args)]\<rparr>,
                  s\<lparr>jobEventEmitter :=
                      jobEventEmitter s @ [(toString (JNum (jobId p)), length (promises p))]\<rparr>)))))\<rparr>,
           snd (snd (shown_in_emit (loopback sock (newArgs a (jobId p) args))
                 (p\<lparr>jobId := jobId p + 1, promises := promises p @ [Pending],
                    wire := wire p @ [(channel sock, newArgs a (jobId p) args)]\<rparr>,
                  s\<lparr>jobEventEmitter :=
                      jobEventEmitter s @ [(toString (JNum (jobId p)), length (promises p))]\<rparr>)))))"
  using assms
  by (simp add: emit_def draw_def executor_def register_def socket_emit_def once_def Let_def
      cong: option.case_cong)

lemma emit_connected_no_error:
  assumes "socket s = Some sock"
      and "list_all (\<lambda>x. toString (job x) \<noteq> ''error'') (loopback sock (newArgs a (jobId p) args))"
  shows "emit a args (p, s) =
     (length (promises p),
      observe (loopback sock (newArgs a (jobId p) args))
        (p\<lparr>jobId := jobId p + 1,
           promises := promises p @ [Pending],
           wire := wire p @ [(channel sock, newArgs a (jobId p) args)]\<rparr>,
         s\<lparr>jobEventEmitter := jobEventEmitter s @ [(toString (JNum (jobId p)), length (promises p))]\<rparr>))"
  by (simp add: emit_connected [OF assms(1)] shown_in_emit_no_error [OF assms(2)])

lemma emit_handle [simp]: "fst (emit a args (p, s)) = length (promises p)"
  by (simp add: emit_def draw_def Let_def)

lemma emit_jobId [simp]: "jobId (fst (snd (emit a args (p, s)))) = jobId p + 1"
  by (cases "socket s") (simp_all add: emit_unconnected emit_connected split: option.splits)

lemma emit_wire:
  "wire (fst (snd (emit a args (p, s))))
     = wire p @ (case socket s of
                   None \<Rightarrow> []
                 | Some sock \<Rightarrow> [(channel sock, newArgs a (jobId p) args)])"
  by (cases "socket s") (simp_all add: emit_unconnected emit_connected split: option.splits)

lemma emit_length_promises [simp]:
  "length (promises (fst (snd (emit a args (p, s))))) = length (promises p) + 1"
  by (cases "socket s") (simp_all add: emit_unconnected emit_connected split: option.splits)

lemma emit_socket [simp]: "socket (snd (snd (emit a args (p, s)))) = socket s"
  by (cases "socket s") (simp_all add: emit_unconnected emit_connected split: option.splits)

lemma emit_registry_filter:
  "\<exists>P. jobEventEmitter (snd (snd (emit a args (p, s))))
         = filter P (jobEventEmitter s @ [(toString (JNum (jobId p)), length (promises p))])"
proof (cases "socket s")
  case None
  show ?thesis
    by (rule exI [of _ "\<lambda>_. True"]) (simp add: emit_unconnected [OF None])
next
  case (Some sock)
  let ?q = "(p\<lparr>jobId := jobId p + 1, promises := promises p @ [Pending],
           wire := wire p @ [(channel sock, newArgs a (jobId p) args)]\<rparr>,
         s\<lparr>jobEventEmitter := jobEventEmitter s @ [(toString (JNum (jobId p)), length (promises p))]\<rparr>)"
  from shown_in_emit_registry_filter [of "loopback sock (newArgs a (jobId p) args)" ?q]
  obtain P where "jobEventEmitter (snd (snd (shown_in_emit (loopback sock (newArgs a (jobId p) args)) ?q)))
      = filter P (jobEventEmitter s @ [(toString (JNum (jobId p)), length (promises p))])"
    by auto
  then have "jobEventEmitter (snd (snd (emit a args (p, s))))
         = filter P (jobEventEmitter s @ [(toString (JNum (jobId p)), length (promises p))])"
    by (simp add: emit_connected [OF Some] split: option.splits)
  then show ?thesis by blast
qed

subsection \<open>One call and its reply\<close>

lemma fires_JNum [simp]: "fires (st\<lparr>job := JNum j\<rparr>)" "job st = JNum j \<Longrightarrow> fires st"
  by (auto simp: fires_def)












subsection \<open>Runs of several instances\<close>

lemma run_Nil [simp]: "run [] = (init_process, [])"
  by (simp add: run_def)

lemma run_snoc [simp]: "run (acts @ [a]) = step a (run acts)"
  by (simp add: run_def)

lemma opts_of_newArgs [simp]: "opts_of (newArgs a j args) = JObj [(''jobId'', JNum j)]"
  by (simp add: opts_of_def newArgs_def)

lemma registry_inv_init: "registry_inv (init_process, [])"
  by (simp add: registry_inv_def init_process_def)

lemma list_all_update:
  "list_all P xs \<Longrightarrow> P x \<Longrightarrow> list_all P (xs[i := x])"
  by (auto simp: list_all_iff dest: set_update_subset_insert [THEN subsetD])

lemma drawn_before_mono: "\<exists>k. k < j \<and> P k \<Longrightarrow> \<exists>k. k < j + 1 \<and> P k" for j :: int
proof -
  assume "\<exists>k. k < j \<and> P k"
  then obtain k where "k < j" "P k" by blast
  then have "k < j + 1 \<and> P k" by simp
  then show ?thesis by (rule exI)
qed

lemma registry_inv_step:
  assumes "registry_inv st"
  shows "registry_inv (step a st)"
proof -
  obtain p ss where st: "st = (p, ss)" by (cases st)
  from assms have regs: "\<And>s. s \<in> set ss \<Longrightarrow> distinct (map fst (jobEventEmitter s))"
    and names: "\<And>s l. s \<in> set ss \<Longrightarrow> l \<in> set (jobEventEmitter s) \<Longrightarrow>
                  (\<exists>k. k < jobId p \<and> fst l = toString (JNum k)) \<and> snd l < length (promises p)"
    and wd: "distinct (map (opts_of \<circ> snd) (wire p))"
    and wn: "\<And>m. m \<in> set (wire p) \<Longrightarrow> \<exists>k. k < jobId p \<and> opts_of (snd m) = JObj [(''jobId'', JNum k)]"
    by (auto simp: registry_inv_def st list_all_iff)
  show ?thesis
  proof (cases a)
    case (Construct u auth)
    then show ?thesis
      using assms by (simp add: st registry_inv_def new_Sdk_def)
  next
    case (SetupRedux i sock)
    show ?thesis
    proof (cases "i < length ss")
      case True
      have "list_all (\<lambda>s. distinct (map fst (jobEventEmitter s))
                   \<and> list_all (\<lambda>l. (\<exists>k. k < jobId p \<and> fst l = toString (JNum k))
                                    \<and> snd l < length (promises p))
                         (jobEventEmitter s)) (ss[i := setupRedux sock (ss ! i)])"
        using assms True
        by (intro list_all_update) (auto simp: registry_inv_def st setupRedux_def list_all_iff)
      then show ?thesis
        using assms True by (simp add: SetupRedux st registry_inv_def)
    next
      case False
      then show ?thesis using assms by (simp add: SetupRedux st)
    qed
  next
    case (StoreChanged i x)
    show ?thesis
    proof (cases "i < length ss \<and> socket (ss ! i) \<noteq> None")
      case True
      let ?q = "snd (storeListener x (p, ss ! i))"
      have mem: "ss ! i \<in> set ss" using True by simp
      have sub: "set (jobEventEmitter (snd ?q)) \<subseteq> set (jobEventEmitter (ss ! i))"
        by (auto simp: storeListener_registry)
      have d: "distinct (map fst (jobEventEmitter (snd ?q)))"
        using regs [OF mem] by (simp add: storeListener_registry distinct_map_filter)
      have "list_all (\<lambda>s. distinct (map fst (jobEventEmitter s))
                   \<and> list_all (\<lambda>l. (\<exists>k. k < jobId (fst ?q) \<and> fst l = toString (JNum k))
                                    \<and> snd l < length (promises (fst ?q)))
                         (jobEventEmitter s)) (ss[i := snd ?q])"
      proof (rule list_all_update)
        show "list_all (\<lambda>s. distinct (map fst (jobEventEmitter s))
                   \<and> list_all (\<lambda>l. (\<exists>k. k < jobId (fst ?q) \<and> fst l = toString (JNum k))
                                    \<and> snd l < length (promises (fst ?q)))
                         (jobEventEmitter s)) ss"
          using regs names by (simp add: list_all_iff)
        show "distinct (map fst (jobEventEmitter (snd ?q)))
                   \<and> list_all (\<lambda>l. (\<exists>k. k < jobId (fst ?q) \<and> fst l = toString (JNum k))
                                    \<and> snd l < length (promises (fst ?q)))
                         (jobEventEmitter (snd ?q))"
          using d names [OF mem] sub by (auto simp: list_all_iff)
      qed
      then show ?thesis
        using True wd wn by (simp add: StoreChanged st registry_inv_def list_all_iff)
    next
      case False
      then show ?thesis using assms by (auto simp: StoreChanged st)
    qed
  next
    case (Emit i act args)
    show ?thesis
    proof (cases "i < length ss")
      case True
      let ?e = "emit act args (p, ss ! i)"
      let ?n = "toString (JNum (jobId p))"
      have mem: "ss ! i \<in> set ss" using True by simp
      obtain P where P: "jobEventEmitter (snd (snd ?e))
         = filter P (jobEventEmitter (ss ! i) @ [(?n, length (promises p))])"
        using emit_registry_filter by blast
      have fresh: "?n \<notin> fst ` set (jobEventEmitter (ss ! i))"
      proof
        assume "?n \<in> fst ` set (jobEventEmitter (ss ! i))"
        then obtain l where l: "l \<in> set (jobEventEmitter (ss ! i))" "fst l = ?n" by auto
        from names [OF mem l(1)] obtain k where "k < jobId p" "fst l = toString (JNum k)" by blast
        with l(2) have "toString (JNum k) = toString (JNum (jobId p))" by simp
        then have "k = jobId p" by (simp only: toString_JNum_inj)
        with \<open>k < jobId p\<close> show False by simp
      qed
      have names': "(\<exists>k. k < jobId p + 1 \<and> fst l = toString (JNum k))
                    \<and> snd l < length (promises p) + 1"
        if "s \<in> set ss" "l \<in> set (jobEventEmitter s)" for s l
      proof -
        from names [OF that] obtain k where k: "k < jobId p" "fst l = toString (JNum k)"
          and h: "snd l < length (promises p)" by blast
        from k have "\<exists>k. k < jobId p + 1 \<and> fst l = toString (JNum k)"
          by (intro exI [of _ k]) simp
        with h show ?thesis by simp
      qed
      have d: "distinct (map fst (jobEventEmitter (snd (snd ?e))))"
        unfolding P using regs [OF mem] fresh
        by (intro distinct_map_filter) (simp)
      have n: "(\<exists>k. k < jobId p + 1 \<and> fst l = toString (JNum k)) \<and> snd l < length (promises p) + 1"
        if "l \<in> set (jobEventEmitter (snd (snd ?e)))" for l
      proof -
        from that have "l \<in> set (jobEventEmitter (ss ! i) @ [(?n, length (promises p))])"
          unfolding P by (rule filter_is_subset [THEN subsetD])
        then have "l \<in> set (jobEventEmitter (ss ! i)) \<or> l = (?n, length (promises p))"
          by auto
        then show ?thesis
        proof
          assume "l \<in> set (jobEventEmitter (ss ! i))"
          from names' [OF mem this] show ?thesis .
        next
          assume l: "l = (?n, length (promises p))"
          have "\<exists>k. k < jobId p + 1 \<and> fst l = toString (JNum k)"
            by (intro exI [of _ "jobId p"]) (simp add: l)
          then show ?thesis by (simp add: l)
        qed
      qed
      have regs': "list_all (\<lambda>s. distinct (map fst (jobEventEmitter s))
                   \<and> list_all (\<lambda>l. (\<exists>k. k < jobId p + 1 \<and> fst l = toString (JNum k))
                                    \<and> snd l < length (promises p) + 1)
                         (jobEventEmitter s)) (ss[i := snd (snd ?e)])"
      proof (rule list_all_update)
        show "list_all (\<lambda>s. distinct (map fst (jobEventEmitter s))
                   \<and> list_all (\<lambda>l. (\<exists>k. k < jobId p + 1 \<and> fst l = toString (JNum k))
                                    \<and> snd l < length (promises p) + 1)
                         (jobEventEmitter s)) ss"
          unfolding list_all_iff using regs names' by blast
        show "distinct (map fst (jobEventEmitter (snd (snd ?e))))
                   \<and> list_all (\<lambda>l. (\<exists>k. k < jobId p + 1 \<and> fst l = toString (JNum k))
                                    \<and> snd l < length (promises p) + 1)
                         (jobEventEmitter (snd (snd ?e)))"
          unfolding list_all_iff using d n by blast
      qed
      have w: "wire (fst (snd ?e))
         = wire p @ (case socket (ss ! i) of None \<Rightarrow> []
                     | Some sock \<Rightarrow> [(channel sock, newArgs act (jobId p) args)])"
        by (rule emit_wire)
      have wd': "distinct (map (opts_of \<circ> snd) (wire (fst (snd ?e))))"
      proof (cases "socket (ss ! i)")
        case None
        then show ?thesis using wd by (simp add: w)
      next
        case (Some sock)
        have "JObj [(''jobId'', JNum (jobId p))] \<notin> (opts_of \<circ> snd) ` set (wire p)"
        proof
          assume "JObj [(''jobId'', JNum (jobId p))] \<in> (opts_of \<circ> snd) ` set (wire p)"
          then obtain m where m: "m \<in> set (wire p)" "opts_of (snd m) = JObj [(''jobId'', JNum (jobId p))]"
            by auto
          from wn [OF m(1)] m(2) show False by auto
        qed
        then show ?thesis using wd by (simp add: w Some)
      qed
      let ?Q = "\<lambda>m. \<exists>k. k < jobId p + 1 \<and> opts_of (snd m) = JObj [(''jobId'', JNum k)]"
      have wn1: "?Q m" if "m \<in> set (wire p)" for m
        using wn [OF that] by (rule drawn_before_mono)
      have old: "list_all ?Q (wire p)"
        unfolding list_all_iff using wn1 by blast
      have wn': "list_all ?Q (wire (fst (snd ?e)))"
      proof (cases "socket (ss ! i)")
        case None
        show ?thesis
          unfolding w None by (simp only: option.case append_Nil2 old)
      next
        case (Some sock)
        have new: "?Q (channel sock, newArgs act (jobId p) args)"
          by (intro exI [of _ "jobId p"]) simp
        show ?thesis
          unfolding w Some by (simp only: option.case list_all_append list.pred_inject old new simp_thms)
      qed
      show ?thesis
        unfolding registry_inv_def Emit st using True regs' wd' wn' by simp
    next
      case False
      then show ?thesis using assms by (simp add: Emit st)
    qed
  qed
qed

lemma registry_inv_run: "registry_inv (run acts)"
  by (induction acts rule: rev_induct) (simp_all add: registry_inv_init registry_inv_step)

lemma step_jobId_Emit:
  "i < length (snd st) \<Longrightarrow> jobId (fst (step (Emit i a args) st)) = jobId (fst st) + 1"
  by (cases st) simp

lemma step_jobId_other:
  "(\<And>i a args. act \<noteq> Emit i a args) \<Longrightarrow> jobId (fst (step act st)) = jobId (fst st)"
  by (cases st; cases act) auto

lemma step_jobId_invalid:
  "\<not> i < length (snd st) \<Longrightarrow> step (Emit i a args) st = st"
  by (cases st) simp

lemma upt_shift: "a # map (\<lambda>k. a + 1 + int k) [0..<n] = map (\<lambda>k. a + int k) [0..<Suc n]"
proof -
  have "map (\<lambda>k. a + int k) [0..<Suc n] = (a + int 0) # map (\<lambda>k. a + int (Suc k)) [0..<n]"
    by (simp only: map_upt_Suc)
  also have "\<dots> = a # map (\<lambda>k. a + 1 + int k) [0..<n]"
    by (simp add: add.assoc)
  finally show ?thesis by simp
qed

lemma drawn_consecutive:
  "drawn acts st = map (\<lambda>k. jobId (fst st) + int k) [0..<length (drawn acts st)]
   \<and> jobId (fst (foldl (\<lambda>st a. step a st) st acts)) = jobId (fst st) + int (length (drawn acts st))"
proof (induction acts arbitrary: st)
  case Nil
  then show ?case by simp
next
  case (Cons act acts)
  let ?st = "step act st"
  note IH = Cons [of ?st]
  show ?case
  proof (cases act)
    case (Emit i a args)
    show ?thesis
    proof (cases "i < length (snd st)")
      case True
      have j: "jobId (fst ?st) = jobId (fst st) + 1"
        using True by (simp add: Emit step_jobId_Emit)
      have d: "drawn (act # acts) st = jobId (fst st) # drawn acts ?st"
        using True by (simp add: Emit draw_def)
      have "drawn acts ?st = map (\<lambda>k. jobId (fst st) + 1 + int k) [0..<length (drawn acts ?st)]"
        using IH j by simp
      then have "drawn (act # acts) st
          = jobId (fst st) # map (\<lambda>k. jobId (fst st) + 1 + int k) [0..<length (drawn acts ?st)]"
        using d by simp
      also have "\<dots> = map (\<lambda>k. jobId (fst st) + int k) [0..<Suc (length (drawn acts ?st))]"
        by (rule upt_shift)
      finally have 1: "drawn (act # acts) st
          = map (\<lambda>k. jobId (fst st) + int k) [0..<length (drawn (act # acts) st)]"
        using d by simp
      have 2: "jobId (fst (foldl (\<lambda>st a. step a st) st (act # acts)))
          = jobId (fst st) + int (length (drawn (act # acts) st))"
        using IH j d by simp
      from 1 2 show ?thesis by blast
    next
      case False
      then have "?st = st" by (simp add: Emit step_jobId_invalid)
      then show ?thesis using IH False by (simp add: Emit)
    qed
  next
    case (Construct u auth)
    then have "jobId (fst ?st) = jobId (fst st)" by (simp add: step_jobId_other)
    then show ?thesis using IH by (simp add: Construct)
  next
    case (SetupRedux i sock)
    then have "jobId (fst ?st) = jobId (fst st)" by (simp add: step_jobId_other)
    then show ?thesis using IH by (simp add: SetupRedux)
  next
    case (StoreChanged i x)
    then have "jobId (fst ?st) = jobId (fst st)" by (simp add: step_jobId_other)
    then show ?thesis using IH by (simp add: StoreChanged)
  qed
qed

lemma upto_from_one: "map (\<lambda>k. 1 + int k) [0..<n] = [1..int n]"
proof (induction n)
  case 0
  then show ?case by simp
next
  case (Suc n)
  have "[1..int (Suc n)] = [1..int n] @ [int n + 1]"
    by (simp add: upto_rec2 add.commute)
  with Suc show ?case by simp
qed

text \<open>
  Claim C3. The counter starts at 1. In every run of a process, with any number of
  \<open>Sdk\<close> instances and however their calls and the store's changes interleave, the
  identifiers that the successive calls of \<open>emit\<close> draw are 1, 2, ..., n: positive,
  increasing by one from call to call whichever instance is called, and none drawn twice;
  the counter then holds n + 1. The messages put on the sockets, over all channels,
  carry pairwise distinct identifiers.
\<close>

theorem job_ids_consecutive:
  "jobId init_process = 1
   \<and> drawn acts (init_process, []) = [1 .. int (length (drawn acts (init_process, [])))]
   \<and> distinct (drawn acts (init_process, []))
   \<and> jobId (fst (run acts)) = 1 + int (length (drawn acts (init_process, [])))
   \<and> distinct (map (opts_of \<circ> snd) (wire (fst (run acts))))"
proof -
  have j: "jobId (fst (init_process, [] :: Sdk list)) = 1"
    by (simp add: init_process_def)
  from drawn_consecutive [of acts "(init_process, [])"]
  have d: "drawn acts (init_process, [])
            = map (\<lambda>k. 1 + int k) [0..<length (drawn acts (init_process, []))]"
    and c: "jobId (fst (run acts)) = 1 + int (length (drawn acts (init_process, [])))"
    unfolding j run_def by blast+
  have u: "drawn acts (init_process, []) = [1 .. int (length (drawn acts (init_process, [])))]"
    using d by (simp only: upto_from_one)
  have "distinct [1 .. int (length (drawn acts (init_process, [])))]"
    by simp
  then have di: "distinct (drawn acts (init_process, []))"
    using u by simp
  have w: "distinct (map (opts_of \<circ> snd) (wire (fst (run acts))))"
    using registry_inv_run [of acts] by (simp add: registry_inv_def)
  show ?thesis
    using u di c w by (simp add: init_process_def)
qed

text \<open>
  Two instances on different channels, called in turn: the identifiers drawn are 1, 2, 3
  and the messages carry them.
\<close>

theorem job_ids_consecutive_witness:
  "drawn [Construct ''/api'' default_authenticator, Construct ''/other'' default_authenticator,
          SetupRedux 0 network, SetupRedux 1 echo,
          Emit 0 ''updateStats'' [], Emit 1 ''updateStats'' [], Emit 0 ''updateStats'' []]
     (init_process, []) = [1, 2, 3]
   \<and> wire (fst (run [Construct ''/api'' default_authenticator, Construct ''/other'' default_authenticator,
          SetupRedux 0 network, SetupRedux 1 echo,
          Emit 0 ''updateStats'' [], Emit 1 ''updateStats'' [], Emit 0 ''updateStats'' []]))
       = [(0, [JStr ''updateStats'', JObj [(''jobId'', JNum 1)]]),
          (1, [JStr ''updateStats'', JObj [(''jobId'', JNum 2)]]),
          (0, [JStr ''updateStats'', JObj [(''jobId'', JNum 3)]])]"
proof -
  let ?acts = "[Construct ''/api'' default_authenticator, Construct ''/other'' default_authenticator,
          SetupRedux 0 network, SetupRedux 1 echo,
          Emit 0 ''updateStats'' [], Emit 1 ''updateStats'' [], Emit 0 ''updateStats'' []]"
  have n: "length (drawn ?acts (init_process, [])) = 3"
    by simp
  have "drawn ?acts (init_process, []) = [1 .. int (length (drawn ?acts (init_process, [])))]"
    using job_ids_consecutive [of ?acts] by blast
  then have d: "drawn ?acts (init_process, []) = [1, 2, 3]"
    unfolding n by (simp add: upto_rec1)
  have w: "wire (fst (run ?acts))
       = [(0, [JStr ''updateStats'', JObj [(''jobId'', JNum 1)]]),
          (1, [JStr ''updateStats'', JObj [(''jobId'', JNum 2)]]),
          (0, [JStr ''updateStats'', JObj [(''jobId'', JNum 3)]])]"
    by (simp add: run_def emit_wire init_process_def new_Sdk_def setupRedux_def network_def
        echo_def newArgs_def)
  show ?thesis using d w by simp
qed

text \<open>
  Claim C6. In every run, in every instance, the names registered in the event registry
  are pairwise distinct: no identifier has two waiters. A snapshot that shows a job
  identifier never makes the subscriber throw and removes the waiter of that job, so the
  waiter cannot fire again; the subscriber called a second time with the same snapshot
  leaves the state as the first call left it, and for a job identifier the second call
  is in all the same as the first.
\<close>

theorem one_waiter_per_job:
  "list_all (\<lambda>s. distinct (map fst (jobEventEmitter s))) (snd (run acts))
   \<and> fst (storeListener \<lparr>job = JNum j\<rparr> q) = None
   \<and> toString (JNum j)
        \<notin> fst ` set (jobEventEmitter (snd (snd (storeListener \<lparr>job = JNum j\<rparr> q))))
   \<and> snd (storeListener st (snd (storeListener st q))) = snd (storeListener st q)
   \<and> storeListener \<lparr>job = JNum j\<rparr> (snd (storeListener \<lparr>job = JNum j\<rparr> q))
        = storeListener \<lparr>job = JNum j\<rparr> q"
proof -
  have 1: "list_all (\<lambda>s. distinct (map fst (jobEventEmitter s))) (snd (run acts))"
    using registry_inv_run [of acts] by (simp add: registry_inv_def list_all_iff)
  have f: "fires \<lparr>job = JNum j\<rparr>" by (simp add: fires_def)
  have n: "fst (storeListener \<lparr>job = JNum j\<rparr> q') = None" for q'
    by (simp add: storeListener_thrown toString_JNum_not_error)
  have 2: "toString (JNum j)
        \<notin> fst ` set (jobEventEmitter (snd (snd (storeListener \<lparr>job = JNum j\<rparr> q))))"
    using f by (auto simp: storeListener_registry)
  have 3: "storeListener \<lparr>job = JNum j\<rparr> (snd (storeListener \<lparr>job = JNum j\<rparr> q))
        = storeListener \<lparr>job = JNum j\<rparr> q"
    by (rule prod_eqI) (simp_all add: n storeListener_idem)
  show ?thesis
    using 1 n 2 3 storeListener_idem by blast
qed

subsection \<open>Concurrent calls\<close>

lemma emits_Nil [simp]: "emits [] q = ([], q)"
  by (simp add: emits_def)

lemma emits_snoc:
  "emits (cs @ [c]) q =
     (fst (emits cs q) @ [fst (emit (fst c) (snd c) (snd (emits cs q)))],
      snd (emit (fst c) (snd c) (snd (emits cs q))))"
  by (simp add: emits_def)

lemma emits_quiet:
  assumes "socket s = Some sock" and "loopback sock = (\<lambda>_. [])"
  shows "emits calls (p, s) =
     (map (\<lambda>k. length (promises p) + k) [0..<length calls],
      p\<lparr>jobId := jobId p + int (length calls),
        promises := promises p @ replicate (length calls) Pending,
        wire := wire p @ map (\<lambda>(k, c). (channel sock, newArgs (fst c) (jobId p + int k) (snd c)))
                           (zip [0..<length calls] calls)\<rparr>,
      s\<lparr>jobEventEmitter :=
          jobEventEmitter s @ map (\<lambda>k. (toString (JNum (jobId p + int k)), length (promises p) + k))
                                [0..<length calls]\<rparr>)"
proof (induction calls rule: rev_induct)
  case Nil
  show ?case by simp
next
  case (snoc c cs)
  let ?p = "p\<lparr>jobId := jobId p + int (length cs),
        promises := promises p @ replicate (length cs) Pending,
        wire := wire p @ map (\<lambda>(k, c). (channel sock, newArgs (fst c) (jobId p + int k) (snd c)))
                           (zip [0..<length cs] cs)\<rparr>"
  let ?s = "s\<lparr>jobEventEmitter :=
          jobEventEmitter s @ map (\<lambda>k. (toString (JNum (jobId p + int k)), length (promises p) + k))
                                [0..<length cs]\<rparr>"
  have sock: "socket ?s = Some sock" using assms(1) by simp
  have e: "emit (fst c) (snd c) (?p, ?s) =
     (length (promises ?p),
      ?p\<lparr>jobId := jobId ?p + 1, promises := promises ?p @ [Pending],
         wire := wire ?p @ [(channel sock, newArgs (fst c) (jobId ?p) (snd c))]\<rparr>,
      ?s\<lparr>jobEventEmitter := jobEventEmitter ?s @ [(toString (JNum (jobId ?p)), length (promises ?p))]\<rparr>)"
    by (simp add: emit_connected_no_error [OF sock] assms(2))
  have r: "replicate (length cs) Pending @ [Pending] = replicate (Suc (length cs)) Pending"
    by (simp add: replicate_append_same)
  show ?case
    unfolding emits_snoc snoc.IH fst_conv snd_conv e
    by (simp add: r)
qed

lemma nth_append_replicate_Pending:
  "k < n \<Longrightarrow> (ps @ replicate n Pending) ! (length ps + k) = Pending"
  by (simp add: nth_append)

text \<open>
  Claim C2. On a connected instance whose socket brings nothing back while \<open>emit\<close> runs
  and whose registered listeners all belong to existing promises (as they do in every
  run), take any number of calls made one after the other, none awaited, and then any
  list of replies, in any order: the message of the k-th call carries the identifier
  that the counter held plus k, and the promise of the k-th call is resolved exactly if
  its own identifier is among the replies observed, and is pending otherwise.
\<close>

theorem replies_route_by_identifier:
  assumes "socket s = Some sock" and "loopback sock = (\<lambda>_. [])"
      and "list_all (\<lambda>l. snd l < length (promises p)) (jobEventEmitter s)"
      and "k < length calls"
  shows "map (opts_of \<circ> snd) (drop (length (wire p)) (wire (fst (snd (emits calls (p, s)))))) ! k
           = JObj [(''jobId'', JNum (jobId p + int k))]
       \<and> promises (fst (observe (map (\<lambda>j. \<lparr>job = JNum j\<rparr>) js) (snd (emits calls (p, s)))))
             ! (fst (emits calls (p, s)) ! k)
           = (if jobId p + int k \<in> set js then Resolved JUndefined else Pending)"
proof -
  let ?n = "length calls"
  let ?h = "length (promises p) + k"
  let ?ee = "jobEventEmitter s @ map (\<lambda>k. (toString (JNum (jobId p + int k)), length (promises p) + k))
                                [0..<?n]"
  let ?q = "snd (emits calls (p, s))"
  let ?sts = "map (\<lambda>j. \<lparr>job = JNum j\<rparr>) js"
  note eq = emits_quiet [OF assms(1,2), of calls p]
  have h: "fst (emits calls (p, s)) ! k = ?h"
    using assms(4) by (simp add: eq)
  have ee: "jobEventEmitter (snd ?q) = ?ee"
    by (simp add: eq)
  have ps: "promises (fst ?q) = promises p @ replicate ?n Pending"
    by (simp add: eq)
  have w: "drop (length (wire p)) (wire (fst ?q))
         = map (\<lambda>(k, c). (channel sock, newArgs (fst c) (jobId p + int k) (snd c))) (zip [0..<?n] calls)"
    by (simp add: eq)
  have tag: "map (opts_of \<circ> snd) (drop (length (wire p)) (wire (fst ?q))) ! k
           = JObj [(''jobId'', JNum (jobId p + int k))]"
    unfolding w using assms(4) by (simp add: split_def)
  have old: "(n, ?h) \<notin> set (jobEventEmitter s)" for n
    using assms(3) by (auto simp: list_all_iff)
  have reg: "(toString (JNum j), ?h) \<in> set ?ee \<longleftrightarrow> j = jobId p + int k" for j
  proof
    assume "(toString (JNum j), ?h) \<in> set ?ee"
    with old have "(toString (JNum j), ?h)
        \<in> set (map (\<lambda>k. (toString (JNum (jobId p + int k)), length (promises p) + k)) [0..<?n])"
      by simp
    then have "toString (JNum j) = toString (JNum (jobId p + int k))" by auto
    then show "j = jobId p + int k" by (simp only: toString_JNum_inj)
  next
    assume "j = jobId p + int k"
    then show "(toString (JNum j), ?h) \<in> set ?ee" using assms(4) by simp
  qed
  have "promises (fst (observe ?sts ?q)) ! ?h
     = (if \<exists>st \<in> set ?sts. fires st \<and> (toString (job st), ?h) \<in> set (jobEventEmitter (snd ?q))
        then Resolved JUndefined else Pending)"
  proof (rule observe_promise)
    show "?h < length (promises (fst ?q))" using assms(4) by (simp add: ps)
    show "promises (fst ?q) ! ?h = Pending"
      unfolding ps using assms(4) by (rule nth_append_replicate_Pending)
  qed
  also have "(\<exists>st \<in> set ?sts. fires st \<and> (toString (job st), ?h) \<in> set (jobEventEmitter (snd ?q)))
      \<longleftrightarrow> jobId p + int k \<in> set js"
    unfolding ee by (auto simp: reg fires_def simp del: set_append)
  finally show ?thesis
    using tag h by simp
qed

text \<open>
  Two calls with the identifiers 8 and 9. The reply for 9 is observed first: the promise
  of the second call is resolved and that of the first is still pending; it is resolved
  when the reply for 8 is observed.
\<close>

theorem replies_route_by_identifier_witness:
  "fst (emits [(''fetchUser'', [JStr ''u1'']), (''fetchUser'', [JStr ''u2''])] (process_at 8, connected))
     = [0, 1]
   \<and> map (opts_of \<circ> snd)
       (wire (fst (snd (emits [(''fetchUser'', [JStr ''u1'']), (''fetchUser'', [JStr ''u2''])]
          (process_at 8, connected)))))
     = [JObj [(''jobId'', JNum 8)], JObj [(''jobId'', JNum 9)]]
   \<and> promises (fst (observe [\<lparr>job = JNum 9\<rparr>]
        (snd (emits [(''fetchUser'', [JStr ''u1'']), (''fetchUser'', [JStr ''u2''])]
          (process_at 8, connected))))) ! 1 = Resolved JUndefined
   \<and> promises (fst (observe [\<lparr>job = JNum 9\<rparr>]
        (snd (emits [(''fetchUser'', [JStr ''u1'']), (''fetchUser'', [JStr ''u2''])]
          (process_at 8, connected))))) ! 0 = Pending
   \<and> promises (fst (observe [\<lparr>job = JNum 9\<rparr>, \<lparr>job = JNum 8\<rparr>]
        (snd (emits [(''fetchUser'', [JStr ''u1'']), (''fetchUser'', [JStr ''u2''])]
          (process_at 8, connected))))) ! 0 = Resolved JUndefined"
proof -
  let ?calls = "[(''fetchUser'', [JStr ''u1'']), (''fetchUser'', [JStr ''u2''])]"
  have s: "socket connected = Some network"
    by (simp add: connected_def setupRedux_def)
  have l: "loopback network = (\<lambda>_. [])"
    by (simp add: network_def)
  have r: "list_all (\<lambda>l. snd l < length (promises (process_at 8))) (jobEventEmitter connected)"
    by (simp add: connected_def setupRedux_def new_Sdk_def)
  have k0: "0 < length ?calls" and k1: "1 < length ?calls"
    by simp_all
  have hs: "fst (emits ?calls (process_at 8, connected)) = [0, 1]"
    by (simp add: emits_quiet [OF s l] process_at_def init_process_def)
  have w: "map (opts_of \<circ> snd) (wire (fst (snd (emits ?calls (process_at 8, connected)))))
     = [JObj [(''jobId'', JNum 8)], JObj [(''jobId'', JNum 9)]]"
    by (simp add: emits_quiet [OF s l] process_at_def init_process_def)
  note t = replies_route_by_identifier [OF s l r]
  have a: "promises (fst (observe [\<lparr>job = JNum 9\<rparr>] (snd (emits ?calls (process_at 8, connected))))) ! 1
        = Resolved JUndefined"
    using t [OF k1, of "[9]", THEN conjunct2, unfolded hs]
    by (simp add: process_at_def init_process_def)
  have b: "promises (fst (observe [\<lparr>job = JNum 9\<rparr>] (snd (emits ?calls (process_at 8, connected))))) ! 0
        = Pending"
    using t [OF k0, of "[9]", THEN conjunct2, unfolded hs]
    by (simp add: process_at_def init_process_def)
  have c: "promises (fst (observe [\<lparr>job = JNum 9\<rparr>, \<lparr>job = JNum 8\<rparr>]
        (snd (emits ?calls (process_at 8, connected))))) ! 0 = Resolved JUndefined"
    using t [OF k0, of "[9, 8]", THEN conjunct2, unfolded hs]
    by (simp add: process_at_def init_process_def)
  show ?thesis
    using hs w a b c by blast
qed

section \<open>Properties of the HTTP facade\<close>

lemma priv_req_rejected:
  "authenticator s (authCalls w) = Inl e \<Longrightarrow>
   priv_req http s m path d w = (Inl e, w\<lparr>authCalls := authCalls w + 1\<rparr>)"
  by (simp add: priv_req_def Let_def)

lemma priv_req_resolved:
  "authenticator s (authCalls w) = Inr strat \<Longrightarrow>
   priv_req http s m path d w =
     (let r = \<lparr>req_method = m, url = baseUrl s @ path,
               headers = (case strat of
                   Unauthenticated \<Rightarrow> []
                 | Basic u pw \<Rightarrow> [(''Authorization'', ''Basic '' @ base64 (utf8 (u @ '':'' @ pw)))]
                 | Bearer t \<Rightarrow> [(''Authorization'', ''Bearer '' @ t)]),
               payload = (if truthy d then Some d else None)\<rparr>
      in (http (requests w) r, w\<lparr>authCalls := authCalls w + 1, requests := requests w @ [r]\<rparr>))"
  by (cases strat; cases d) (simp_all add: priv_req_def Let_def set_header_def default_null_def)

lemma truthy_default_null [simp]: "truthy (default_null d) = truthy d"
  by (cases d) (simp_all add: default_null_def)

lemma default_null_truthy: "truthy d \<Longrightarrow> default_null d = d"
  by (cases d) (simp_all add: default_null_def)

text \<open>
  Claim C8. When the credential provider rejects with an error, each of the four HTTP
  operations rejects with that same error; the provider has been invoked once and no
  request has been sent. The operations built on them (the lookup by email, the start of
  an email verification) reject with it too.
\<close>

theorem provider_rejection_propagates:
  assumes "authenticator s (authCalls w) = Inl e"
  shows "getRequest http s path w = (Inl e, w\<lparr>authCalls := authCalls w + 1\<rparr>)
       \<and> deleteRequest http s path w = (Inl e, w\<lparr>authCalls := authCalls w + 1\<rparr>)
       \<and> putRequest http s path d w = (Inl e, w\<lparr>authCalls := authCalls w + 1\<rparr>)
       \<and> postRequest http s path d w = (Inl e, w\<lparr>authCalls := authCalls w + 1\<rparr>)
       \<and> fromEmail http s em w = (Inl e, w\<lparr>authCalls := authCalls w + 1\<rparr>)
       \<and> startEmailVerification http s b w = (Inl e, w\<lparr>authCalls := authCalls w + 1\<rparr>)"
  using assms
  by (simp add: getRequest_def deleteRequest_def putRequest_def postRequest_def priv_req_rejected
      fromEmail_def startEmailVerification_def await_then_def)

text \<open>
  The provider with the expired token: the GET and the POST reject with its error, and
  nothing is sent.
\<close>

theorem provider_rejection_propagates_witness:
  "getRequest (users_server JNull) (new_Sdk default_baseUrl expired) ''/users/1'' net0
     = (Inl (Error ''token expired''), \<lparr>authCalls = 1, requests = []\<rparr>)
   \<and> postRequest (users_server JNull) (new_Sdk default_baseUrl expired) ''/users/1'' (JObj [(''x'', JNum 1)]) net0
     = (Inl (Error ''token expired''), \<lparr>authCalls = 1, requests = []\<rparr>)"
proof -
  have h: "authenticator (new_Sdk default_baseUrl expired) (authCalls net0) = Inl (Error ''token expired'')"
    by (simp add: new_Sdk_def expired_def)
  show ?thesis
    using provider_rejection_propagates [OF h, where http = "users_server JNull" and path = "''/users/1''"
        and d = "JObj [(''x'', JNum 1)]"]
    by (simp add: net0_def)
qed

text \<open>
  Claim C7. Every call of \<open>_req\<close> (and so every HTTP call, which all go through it)
  invokes the credential provider once more, and the request it sends carries the header
  of the strategy resolved in this very call: none for unauthenticated, \<open>Basic\<close> and the
  base64 of \<open>username:password\<close> for basic, \<open>Bearer\<close> and the token for bearer. The
  base64 of \<open>a:b\<close> is \<open>YTpi\<close>.
\<close>

theorem authorization_header_per_call:
  "authCalls (snd (priv_req http s m path d w)) = authCalls w + 1
   \<and> (authenticator s (authCalls w) = Inr Unauthenticated \<longrightarrow>
        headers (last (requests (snd (priv_req http s m path d w)))) = [])
   \<and> (authenticator s (authCalls w) = Inr (Basic u pw) \<longrightarrow>
        headers (last (requests (snd (priv_req http s m path d w))))
          = [(''Authorization'', ''Basic '' @ base64 (utf8 (u @ '':'' @ pw)))])
   \<and> (authenticator s (authCalls w) = Inr (Bearer t) \<longrightarrow>
        headers (last (requests (snd (priv_req http s m path d w))))
          = [(''Authorization'', ''Bearer '' @ t)])
   \<and> (authenticator s (authCalls w) = Inr strat \<longrightarrow>
        length (requests (snd (priv_req http s m path d w))) = length (requests w) + 1)
   \<and> base64 (utf8 ''a:b'') = ''YTpi''"
proof -
  have calls: "authCalls (snd (priv_req http s m path d w)) = authCalls w + 1"
    by (cases "authenticator s (authCalls w)")
       (simp_all add: priv_req_rejected priv_req_resolved Let_def)
  have b: "base64 (utf8 ''a:b'') = ''YTpi''"
    by (simp add: utf8_def b64_def)
  show ?thesis
    using calls b by (simp add: priv_req_resolved Let_def)
qed

text \<open>
  With a provider that rotates from basic \<open>a\<close>/\<open>b\<close> to bearer \<open>xyz\<close> and then to no
  credentials, two calls in a row send \<open>Basic YTpi\<close> and then \<open>Bearer xyz\<close>.
\<close>

theorem authorization_header_per_call_witness:
  "map headers (requests (snd (priv_req (users_server JNull) (new_Sdk default_baseUrl rotating) POST ''/contact'' JNull
      (snd (priv_req (users_server JNull) (new_Sdk default_baseUrl rotating) GET ''/users/1'' JNull
         net0)))))
     = [[(''Authorization'', ''Basic YTpi'')], [(''Authorization'', ''Bearer xyz'')]]
   \<and> authCalls (snd (priv_req (users_server JNull) (new_Sdk default_baseUrl rotating) GET ''/users/1'' JNull
       net0)) = 1
   \<and> headers (last (requests (snd (priv_req (users_server JNull) (new_Sdk default_baseUrl rotating) GET ''/users/1'' JNull
       net0)))) = [(''Authorization'', ''Basic YTpi'')]
   \<and> headers (last (requests (snd (priv_req (users_server JNull) (new_Sdk default_baseUrl rotating) GET ''/users/1'' JNull
       \<lparr>authCalls = 1, requests = []\<rparr>)))) = [(''Authorization'', ''Bearer xyz'')]
   \<and> headers (last (requests (snd (priv_req (users_server JNull) (new_Sdk default_baseUrl rotating) GET ''/users/1'' JNull
       \<lparr>authCalls = 2, requests = []\<rparr>)))) = []"
proof -
  let ?s = "new_Sdk default_baseUrl rotating"
  have h0: "authenticator ?s (authCalls net0) = Inr (Basic ''a'' ''b'')"
    by (simp add: new_Sdk_def rotating_def net0_def)
  have h1: "authenticator ?s (authCalls \<lparr>authCalls = 1, requests = []\<rparr>) = Inr (Bearer ''xyz'')"
    by (simp add: new_Sdk_def rotating_def)
  have h2: "authenticator ?s (authCalls \<lparr>authCalls = 2, requests = []\<rparr>) = Inr Unauthenticated"
    by (simp add: new_Sdk_def rotating_def)
  have two: "map headers (requests (snd (priv_req (users_server JNull) ?s POST ''/contact'' JNull
      (snd (priv_req (users_server JNull) ?s GET ''/users/1'' JNull net0)))))
     = [[(''Authorization'', ''Basic YTpi'')], [(''Authorization'', ''Bearer xyz'')]]"
    by (simp add: priv_req_def Let_def new_Sdk_def rotating_def net0_def set_header_def
        default_null_def utf8_def b64_def)
  show ?thesis
    using two h0 h1 h2
      authorization_header_per_call [of "users_server JNull" ?s GET "''/users/1''" JNull net0 "''a''" "''b''"]
      authorization_header_per_call [of "users_server JNull" ?s GET "''/users/1''" JNull
         "\<lparr>authCalls = 1, requests = []\<rparr>" _ _ "''xyz''"]
      authorization_header_per_call [of "users_server JNull" ?s GET "''/users/1''" JNull
         "\<lparr>authCalls = 2, requests = []\<rparr>"]
    by (simp add: net0_def)
qed


lemma getRequest_resolved:
  "authenticator s (authCalls w) = Inr strat \<Longrightarrow>
   \<exists>r. getRequest http s path w
         = (http (requests w) r, w\<lparr>authCalls := authCalls w + 1, requests := requests w @ [r]\<rparr>)
       \<and> req_method r = GET \<and> url r = baseUrl s @ path \<and> payload r = None"
  by (simp add: getRequest_def priv_req_resolved Let_def) (intro exI conjI, rule refl, simp_all)

lemma deleteRequest_resolved:
  "authenticator s (authCalls w) = Inr strat \<Longrightarrow>
   \<exists>r. deleteRequest http s path w
         = (http (requests w) r, w\<lparr>authCalls := authCalls w + 1, requests := requests w @ [r]\<rparr>)
       \<and> req_method r = DELETE \<and> url r = baseUrl s @ path \<and> payload r = None"
  by (simp add: deleteRequest_def priv_req_resolved Let_def) (intro exI conjI, rule refl, simp_all)

lemma putRequest_resolved:
  "authenticator s (authCalls w) = Inr strat \<Longrightarrow>
   \<exists>r. putRequest http s path d w
         = (http (requests w) r, w\<lparr>authCalls := authCalls w + 1, requests := requests w @ [r]\<rparr>)
       \<and> req_method r = PUT \<and> url r = baseUrl s @ path
       \<and> payload r = (if truthy d then Some d else None)"
  by (cases "truthy d"; simp add: putRequest_def priv_req_resolved Let_def default_null_truthy)
     ((intro exI conjI, rule refl, simp_all)+)

lemma postRequest_resolved:
  "authenticator s (authCalls w) = Inr strat \<Longrightarrow>
   \<exists>r. postRequest http s path d w
         = (http (requests w) r, w\<lparr>authCalls := authCalls w + 1, requests := requests w @ [r]\<rparr>)
       \<and> req_method r = POST \<and> url r = baseUrl s @ path
       \<and> payload r = (if truthy d then Some d else None)"
  by (cases "truthy d"; simp add: postRequest_def priv_req_resolved Let_def default_null_truthy)
     ((intro exI conjI, rule refl, simp_all)+)

text \<open>
  Claim C4, as the code has it. When the provider resolves, each of \<open>getRequest\<close>,
  \<open>deleteRequest\<close>, \<open>putRequest\<close> and \<open>postRequest\<close> sends exactly one request, with its
  method, against the base URL followed by the path, with the body if a truthy one is
  given to put or post, and its promise settles as the transport settles that request: it
  is fulfilled with the response object, for delete too. The parsed body is what
  \<open>ResourceSdk.get\<close> reads from that response, and \<open>ResourceSdk.del\<close> returns nothing.
\<close>

theorem facade_settles_as_transport:
  assumes "authenticator s (authCalls w) = Inr strat"
  shows "(\<exists>r. getRequest http s path w
               = (http (requests w) r, w\<lparr>authCalls := authCalls w + 1, requests := requests w @ [r]\<rparr>)
             \<and> req_method r = GET \<and> url r = baseUrl s @ path \<and> payload r = None)
       \<and> (\<exists>r. deleteRequest http s path w
               = (http (requests w) r, w\<lparr>authCalls := authCalls w + 1, requests := requests w @ [r]\<rparr>)
             \<and> req_method r = DELETE \<and> url r = baseUrl s @ path \<and> payload r = None)
       \<and> (\<exists>r. putRequest http s path d w
               = (http (requests w) r, w\<lparr>authCalls := authCalls w + 1, requests := requests w @ [r]\<rparr>)
             \<and> req_method r = PUT \<and> url r = baseUrl s @ path
             \<and> payload r = (if truthy d then Some d else None))
       \<and> (\<exists>r. postRequest http s path d w
               = (http (requests w) r, w\<lparr>authCalls := authCalls w + 1, requests := requests w @ [r]\<rparr>)
             \<and> req_method r = POST \<and> url r = baseUrl s @ path
             \<and> payload r = (if truthy d then Some d else None))
       \<and> fst (ResourceSdk_get http s rp ident w)
           = (case fst (getRequest http s (''/'' @ rp @ ''/'' @ ident) w) of
                Inl e \<Rightarrow> Inl e | Inr res \<Rightarrow> get_prop ''body'' res)
       \<and> fst (ResourceSdk_del http s rp ident w)
           = (case fst (deleteRequest http s (''/'' @ rp @ ''/'' @ ident) w) of
                Inl e \<Rightarrow> Inl e | Inr res \<Rightarrow> Inr JUndefined)"
proof -
  have a: "fst (ResourceSdk_get http s rp ident w)
           = (case fst (getRequest http s (''/'' @ rp @ ''/'' @ ident) w) of
                Inl e \<Rightarrow> Inl e | Inr res \<Rightarrow> get_prop ''body'' res)"
    by (simp add: ResourceSdk_get_def await_then_def split: sum.splits)
  have b: "fst (ResourceSdk_del http s rp ident w)
           = (case fst (deleteRequest http s (''/'' @ rp @ ''/'' @ ident) w) of
                Inl e \<Rightarrow> Inl e | Inr res \<Rightarrow> Inr JUndefined)"
    by (simp add: ResourceSdk_del_def await_then_def split: sum.splits)
  show ?thesis
    using getRequest_resolved [OF assms] deleteRequest_resolved [OF assms]
      putRequest_resolved [OF assms] postRequest_resolved [OF assms] a b
    by blast
qed

text \<open>
  A GET of \<open>/users\<close> against the default base URL, and the two resource wrappers on
  \<open>/users/u1\<close>.
\<close>

theorem facade_settles_as_transport_witness:
  "getRequest (users_server (JArr [anna])) (new_Sdk default_baseUrl rotating) ''/users'' net0
     = (Inr (JObj [(''status'', JNum 200), (''body'', JArr [anna])]),
        \<lparr>authCalls = 1,
         requests = [\<lparr>req_method = GET, url = ''/api/users'',
                      headers = [(''Authorization'', ''Basic YTpi'')], payload = None\<rparr>]\<rparr>)
   \<and> fst (ResourceSdk_get (users_server anna) (new_Sdk default_baseUrl rotating) ''users'' ''u1'' net0)
     = Inr anna
   \<and> fst (ResourceSdk_del (users_server anna) (new_Sdk default_baseUrl rotating) ''users'' ''u1'' net0)
     = Inr JUndefined"
proof -
  let ?s = "new_Sdk default_baseUrl rotating"
  have h: "authenticator ?s (authCalls net0) = Inr (Basic ''a'' ''b'')"
    by (simp add: new_Sdk_def rotating_def net0_def)
  have b: "base64 (utf8 ''a:b'') = ''YTpi''"
    by (simp add: utf8_def b64_def)
  have g: "getRequest (users_server (JArr [anna])) ?s ''/users'' net0
     = (Inr (JObj [(''status'', JNum 200), (''body'', JArr [anna])]),
        \<lparr>authCalls = 1,
         requests = [\<lparr>req_method = GET, url = ''/api/users'',
                      headers = [(''Authorization'', ''Basic YTpi'')], payload = None\<rparr>]\<rparr>)"
    by (simp add: getRequest_def priv_req_def Let_def b users_server_def net0_def
        new_Sdk_def default_baseUrl_def rotating_def default_null_def set_header_def)
  have g1: "fst (getRequest (users_server anna) ?s ''/users/u1'' net0)
     = Inr (JObj [(''status'', JNum 200), (''body'', anna)])"
    by (simp add: getRequest_def priv_req_resolved [OF h] Let_def users_server_def)
  have d1: "fst (deleteRequest (users_server anna) ?s ''/users/u1'' net0)
     = Inr (JObj [(''status'', JNum 204), (''body'', JObj [])])"
    by (simp add: deleteRequest_def priv_req_resolved [OF h] Let_def users_server_def)
  show ?thesis
    using g g1 d1
      facade_settles_as_transport [OF h, where http = "users_server anna" and rp = "''users''"
        and ident = "''u1''"]
    by simp
qed

text \<open>
  Claim C4 as stated fails: the promise of \<open>getRequest\<close> is fulfilled with the
  response object, not with its parsed body, and the promise of \<open>deleteRequest\<close> with
  the response object too, not with \<open>undefined\<close>.
\<close>

theorem facade_parsed_body_counterexample:
  "fst (getRequest (users_server (JArr [anna])) (new_Sdk default_baseUrl default_authenticator)
          ''/users'' net0)
     = Inr (JObj [(''status'', JNum 200), (''body'', JArr [anna])])
   \<and> fst (getRequest (users_server (JArr [anna])) (new_Sdk default_baseUrl default_authenticator)
          ''/users'' net0)
     \<noteq> Inr (JArr [anna])
   \<and> fst (deleteRequest (users_server (JArr [anna])) (new_Sdk default_baseUrl default_authenticator)
          ''/users/u1'' net0)
     = Inr (JObj [(''status'', JNum 204), (''body'', JObj [])])
   \<and> fst (deleteRequest (users_server (JArr [anna])) (new_Sdk default_baseUrl default_authenticator)
          ''/users/u1'' net0)
     \<noteq> Inr JUndefined"
  by (simp add: getRequest_def deleteRequest_def priv_req_def Let_def new_Sdk_def
      default_authenticator_def default_null_def users_server_def net0_def)


lemma startEmailVerification_not_found:
  "fromEmail http s (email b) w = (Inr user, w1) \<Longrightarrow> \<not> truthy user \<Longrightarrow>
   startEmailVerification http s b w = (Inl (Error ''User not found''), w1)"
  by (simp add: startEmailVerification_def await_then_def)

lemma forgotPassword_not_found:
  "fromEmail http s (email b) w = (Inr user, w1) \<Longrightarrow> \<not> truthy user \<Longrightarrow>
   forgotPassword http s b w = (Inl (Error ''User not found''), w1)"
  by (simp add: forgotPassword_def await_then_def)

lemma fromEmail_sends_lookup:
  assumes "fromEmail http s em w = (Inr user, w1)"
  shows "\<exists>r. w1 = w\<lparr>authCalls := authCalls w + 1, requests := requests w @ [r]\<rparr>
           \<and> req_method r = GET \<and> url r = baseUrl s @ ''/users?email='' @ encodeURIComponent em
           \<and> payload r = None"
proof (cases "authenticator s (authCalls w)")
  case (Inl e)
  then have "fromEmail http s em w = (Inl e, w\<lparr>authCalls := authCalls w + 1\<rparr>)"
    by (simp add: fromEmail_def await_then_def getRequest_def priv_req_rejected)
  with assms show ?thesis by simp
next
  case (Inr strat)
  from getRequest_resolved [OF Inr, of http "''/users?email='' @ encodeURIComponent em"]
  obtain r where r: "getRequest http s (''/users?email='' @ encodeURIComponent em) w
         = (http (requests w) r, w\<lparr>authCalls := authCalls w + 1, requests := requests w @ [r]\<rparr>)"
       "req_method r = GET" "url r = baseUrl s @ ''/users?email='' @ encodeURIComponent em"
       "payload r = None"
    by blast
  have "snd (fromEmail http s em w)
          = snd (getRequest http s (''/users?email='' @ encodeURIComponent em) w)"
    by (simp add: fromEmail_def await_then_def split: sum.splits)
  then have "w1 = w\<lparr>authCalls := authCalls w + 1, requests := requests w @ [r]\<rparr>"
    using assms by (simp only: r(1) snd_conv)
  with r show ?thesis by blast
qed

lemma digits_0 [simp]: "digits 0 = ''0''"
  by (simp add: digits.simps digit_def)

lemma fromEmail_cases:
  assumes "getRequest http s (''/users?email='' @ encodeURIComponent em) w = (Inr res, w1)"
      and "get_prop ''body'' res = Inr body"
  shows "\<not> truthy body \<Longrightarrow> fromEmail http s em w = (Inr JNull, w1)"
    and "body = JArr xs \<Longrightarrow> length xs \<noteq> 1 \<Longrightarrow> fromEmail http s em w = (Inr JNull, w1)"
    and "body = JArr [u] \<Longrightarrow> fromEmail http s em w = (Inr u, w1)"
  using assms by (simp_all add: fromEmail_def await_then_def)

text \<open>
  Claim C9. When the lookup by email finds no user (it resolves to a falsy value),
  \<open>startEmailVerification\<close> and \<open>forgotPassword\<close> reject with the error \<open>User not found\<close>,
  and the lookup's GET is the only request that has been sent.
\<close>

theorem user_not_found_rejects:
  assumes "fromEmail http s (email b) w = (Inr user, w1)" and "\<not> truthy user"
  shows "startEmailVerification http s b w = (Inl (Error ''User not found''), w1)
       \<and> forgotPassword http s b w = (Inl (Error ''User not found''), w1)
       \<and> (\<exists>r. requests w1 = requests w @ [r] \<and> req_method r = GET
              \<and> url r = baseUrl s @ ''/users?email='' @ encodeURIComponent (email b))"
proof -
  from fromEmail_sends_lookup [OF assms(1)]
  have "\<exists>r. requests w1 = requests w @ [r] \<and> req_method r = GET
              \<and> url r = baseUrl s @ ''/users?email='' @ encodeURIComponent (email b)"
    by auto
  then show ?thesis
    using startEmailVerification_not_found [OF assms] forgotPassword_not_found [OF assms]
    by simp
qed

text \<open>
  Claim C10. On a response to the lookup, \<open>fromEmail\<close> resolves to \<open>null\<close> when the
  body is missing or falsy and when it is a list whose length is not one, and to the
  user when the list has exactly one; on a list of another length the two operations
  located by email reject with \<open>User not found\<close>.
\<close>

theorem fromEmail_null_unless_single:
  assumes "getRequest http s (''/users?email='' @ encodeURIComponent (email b)) w = (Inr res, w1)"
      and "get_prop ''body'' res = Inr body"
  shows "(\<not> truthy body \<longrightarrow> fromEmail http s (email b) w = (Inr JNull, w1))
       \<and> (body = JArr xs \<and> length xs \<noteq> 1 \<longrightarrow>
            fromEmail http s (email b) w = (Inr JNull, w1)
            \<and> startEmailVerification http s b w = (Inl (Error ''User not found''), w1)
            \<and> forgotPassword http s b w = (Inl (Error ''User not found''), w1))
       \<and> (body = JArr [u] \<longrightarrow> fromEmail http s (email b) w = (Inr u, w1))"
proof -
  have "fromEmail http s (email b) w = (Inr JNull, w1)
        \<and> startEmailVerification http s b w = (Inl (Error ''User not found''), w1)
        \<and> forgotPassword http s b w = (Inl (Error ''User not found''), w1)"
    if "body = JArr xs" "length xs \<noteq> 1"
  proof -
    have f: "fromEmail http s (email b) w = (Inr JNull, w1)"
      using fromEmail_cases(2) [OF assms that] .
    show ?thesis
      using f startEmailVerification_not_found [OF f] forgotPassword_not_found [OF f] by simp
  qed
  then show ?thesis
    using fromEmail_cases(1) [OF assms] fromEmail_cases(3) [OF assms] by blast
qed

text \<open>
  No user has the address: both operations reject, after the one GET.
\<close>

theorem user_not_found_rejects_witness:
  "startEmailVerification (users_server (JArr [])) (new_Sdk default_baseUrl default_authenticator)
      \<lparr>email = ''a@b.c'', locale' = None\<rparr> net0
     = (Inl (Error ''User not found''),
        \<lparr>authCalls = 1,
         requests = [\<lparr>req_method = GET, url = ''/api/users?email=a%40b.c'', headers = [],
                      payload = None\<rparr>]\<rparr>)
   \<and> forgotPassword (users_server (JArr [])) (new_Sdk default_baseUrl default_authenticator)
      \<lparr>email = ''a@b.c'', locale' = None\<rparr> net0
     = (Inl (Error ''User not found''),
        \<lparr>authCalls = 1,
         requests = [\<lparr>req_method = GET, url = ''/api/users?email=a%40b.c'', headers = [],
                      payload = None\<rparr>]\<rparr>)"
proof -
  let ?w1 = "\<lparr>authCalls = 1,
         requests = [\<lparr>req_method = GET, url = ''/api/users?email=a%40b.c'', headers = [],
                      payload = None\<rparr>]\<rparr>"
  let ?b = "\<lparr>email = ''a@b.c'', locale' = None\<rparr>"
  have enc: "encodeURIComponent ''a@b.c'' = ''a%40b.c''"
    by (simp add: encodeURIComponent_def unreserved_def utf8_def hexdigit_def)
  have f: "fromEmail (users_server (JArr [])) (new_Sdk default_baseUrl default_authenticator)
             (email ?b) net0 = (Inr JNull, ?w1)"
    by (simp add: fromEmail_def await_then_def getRequest_def priv_req_def Let_def enc
        new_Sdk_def default_baseUrl_def default_authenticator_def default_null_def
        users_server_def net0_def)
  have t: "\<not> truthy JNull" by simp
  show ?thesis
    using user_not_found_rejects [OF f t] by simp
qed

text \<open>
  No body, two users and one user for the address.
\<close>

theorem fromEmail_null_unless_single_witness:
  "fst (fromEmail (users_server JUndefined) (new_Sdk default_baseUrl default_authenticator)
          ''anna'' net0) = Inr JNull
   \<and> fst (fromEmail (users_server (JArr [anna, bob])) (new_Sdk default_baseUrl default_authenticator)
          ''anna'' net0) = Inr JNull
   \<and> fst (startEmailVerification (users_server (JArr [anna, bob]))
          (new_Sdk default_baseUrl default_authenticator) \<lparr>email = ''anna'', locale' = None\<rparr> net0)
        = Inl (Error ''User not found'')
   \<and> fst (fromEmail (users_server (JArr [anna])) (new_Sdk default_baseUrl default_authenticator)
          ''anna'' net0) = Inr anna"
proof -
  let ?s = "new_Sdk default_baseUrl default_authenticator"
  let ?b = "\<lparr>email = ''anna'', locale' = None\<rparr>"
  let ?w1 = "\<lparr>authCalls = 1,
         requests = [\<lparr>req_method = GET, url = ''/api/users?email=anna'', headers = [],
                      payload = None\<rparr>]\<rparr>"
  have enc: "encodeURIComponent ''anna'' = ''anna''"
    by (simp add: encodeURIComponent_def unreserved_def)
  have g: "getRequest (users_server found) ?s (''/users?email='' @ encodeURIComponent (email ?b)) net0
             = (Inr (JObj [(''status'', JNum 200), (''body'', found)]), ?w1)" for found
    by (simp add: getRequest_def priv_req_def Let_def enc new_Sdk_def default_baseUrl_def
        default_authenticator_def default_null_def users_server_def net0_def)
  have p: "get_prop ''body'' (JObj [(''status'', JNum 200), (''body'', found)]) = Inr found" for found
    by simp
  show ?thesis
    using fromEmail_null_unless_single [OF g p, of JUndefined]
      fromEmail_null_unless_single [OF g p, of "JArr [anna, bob]" "[anna, bob]"]
      fromEmail_null_unless_single [OF g p, of "JArr [anna]" _ anna]
    by simp
qed

end
